theory Spec2Isabelle
  imports Complex_Main "HOL-Library.DAList" "HOL-Library.Sublist" "HOL-Library.Log_Nat"
    "HOL-Library.Word"
begin

section \<open>Strings\<close>

text \<open>
  A JavaScript string is a sequence of UTF-16 code units; \<open>length\<close>, \<open>includes\<close>,
  \<open>split\<close> and \<open>substring\<close> count and compare code units. Identifiers and names, which
  the program only stores and compares with \<open>===\<close>, are kept as \<open>string\<close>.
\<close>

type_synonym js_string = "16 word list"

text \<open>A string literal of the source all of whose characters are ASCII.\<close>

definition str :: "string \<Rightarrow> js_string" where
  "str s = map of_char s"

text \<open>
  \<open>String.prototype.toLowerCase\<close> is a built-in of the language and not code of the
  repository (it depends on the Unicode case tables and on the context of a character):
  every function below that calls it takes it as its parameter \<open>toLowerCase\<close>.
\<close>

text \<open>
  The class \<open>\s\<close> of a regular expression: the white space and line terminator code
  points of the language, each of them a single code unit (tab, line feed, vertical tab,
  form feed, carriage return, space, U+00A0, U+1680, U+2000 to U+200A, U+2028, U+2029,
  U+202F, U+205F, U+3000, U+FEFF).
\<close>

definition is_ws :: "16 word \<Rightarrow> bool" where
  "is_ws c =
     (c \<in> set [9, 10, 11, 12, 13, 32, 160, 5760, 8232, 8233, 8239, 8287, 12288, 65279]
      \<or> (8192 \<le> c \<and> c \<le> 8202))"

text \<open>
  \<open>s.split(/\s+/)\<close>: the pieces between maximal runs of whitespace; a leading or a
  trailing run leaves an empty piece, and a string without whitespace is one piece.
\<close>

function split_from :: "js_string \<Rightarrow> js_string \<Rightarrow> js_string list" where
  "split_from cur [] = [cur]"
| "split_from cur (c # cs) =
     (if is_ws c then cur # split_from [] (dropWhile is_ws cs)
      else split_from (cur @ [c]) cs)"
  by pat_completeness auto
termination
  by (relation "measure (\<lambda>(cur, s). length s)")
     (auto simp: length_dropWhile_le less_Suc_eq_le)

definition split_ws :: "js_string \<Rightarrow> js_string list" where
  "split_ws s = split_from [] s"

text \<open>\<open>s.includes(t)\<close>: \<open>t\<close> occurs in \<open>s\<close> as a contiguous piece.\<close>

fun includes_str :: "js_string \<Rightarrow> js_string \<Rightarrow> bool" where
  "includes_str [] t = (t = [])"
| "includes_str (c # cs) t = (prefix t (c # cs) \<or> includes_str cs t)"

section \<open>Numbers\<close>

text \<open>
  A JavaScript number is an IEEE 754 double. It is modelled by the rational number it
  denotes, and every literal and every arithmetic result is rounded to the nearest
  double, ties to the even significand (53 bits, exponents down to the subnormal range).
  Infinities and NaN are not modelled: the numbers of this program stay far from
  overflow, and nothing divides by zero.
\<close>

definition pow2 :: "int \<Rightarrow> rat" where
  "pow2 e = (if 0 \<le> e then 2 ^ nat e else 1 / 2 ^ nat (- e))"

text \<open>The integer part of the binary logarithm of a positive rational.\<close>

definition floor_log2 :: "rat \<Rightarrow> int" where
  "floor_log2 r =
     (let (p, q) = quotient_of r; d = bitlen p - bitlen q
      in if r < pow2 d then d - 1 else d)"

definition round_half_even :: "rat \<Rightarrow> int" where
  "round_half_even y =
     (let f = \<lfloor>y\<rfloor>; d = y - of_int f
      in if d < 1 / 2 then f else if 1 / 2 < d then f + 1 else if even f then f else f + 1)"

definition to_double :: "rat \<Rightarrow> rat" where
  "to_double x =
     (if x = 0 then 0
      else (let e = max (- 1074) (floor_log2 \<bar>x\<bar> - 52)
            in of_int (round_half_even (x / pow2 e)) * pow2 e))"

text \<open>A decimal literal of the source, and the arithmetic operators.\<close>

definition lit :: "rat \<Rightarrow> rat" where
  "lit q = to_double q"

definition js_add :: "rat \<Rightarrow> rat \<Rightarrow> rat" where
  "js_add a b = to_double (a + b)"

definition js_mul :: "rat \<Rightarrow> rat \<Rightarrow> rat" where
  "js_mul a b = to_double (a * b)"

definition js_div :: "rat \<Rightarrow> rat \<Rightarrow> rat" where
  "js_div a b = to_double (a / b)"

section \<open>The world engine (src/world.js)\<close>

subsection \<open>Data\<close>

type_synonym ident = string

text \<open>An inhabitant as the world reads it: \<open>id\<close>, \<open>name\<close>, \<open>kind\<close>.\<close>

record inhabitant =
  iid :: ident
  iname :: string
  ikind :: string

datatype model_tier = Default | NonDefault

text \<open>A relationship edge.\<close>

record relationship =
  model :: model_tier
  entanglement :: rat
  interactions :: nat
  lastInteraction :: "nat option"

datatype classification = Fork | Perturbation

text \<open>
  The payload of a recorded event, by its \<open>type\<close> tag. The message payload carries
  \<open>from\<close>, \<open>fromName\<close>, \<open>to\<close>, \<open>content\<close>, \<open>replyTo\<close> and the classification, which is
  absent until \<open>processMessage\<close> assigns it. The opaque \<open>meta\<close> bag, the random \<open>id\<close> and
  the wall-clock \<open>timestamp\<close> of an event are read by nothing in the engine and are left
  out.
\<close>

datatype payload =
    EnterEvent ident string string
  | LeaveEvent ident string
  | MessageEvent ident string ident js_string "string option" "classification option"

record event =
  sequence :: nat
  payload :: payload

record world =
  memory :: "event list"
  sequenceCounter :: nat
  inhabitants :: "(ident, inhabitant) alist"
  relationships :: "ident \<rightharpoonup> (ident \<rightharpoonup> relationship)"

text \<open>The state the constructor builds.\<close>

definition new_world :: world where
  "new_world = \<lparr>memory = [], sequenceCounter = 0, inhabitants = DAList.empty,
     relationships = Map.empty\<rparr>"

text \<open>The keys of the inhabitant map in iteration (insertion) order.\<close>

definition inhabitant_ids :: "world \<Rightarrow> ident list" where
  "inhabitant_ids w = map fst (DAList.impl_of (inhabitants w))"

text \<open>\<open>relationships.get(a).get(b)\<close>, absent when either lookup is.\<close>

definition lookup_edge ::
  "(ident \<rightharpoonup> (ident \<rightharpoonup> relationship)) \<Rightarrow> ident \<Rightarrow> ident \<Rightarrow> relationship option" where
  "lookup_edge R a b = (case R a of None \<Rightarrow> None | Some m \<Rightarrow> m b)"

definition edge :: "world \<Rightarrow> ident \<Rightarrow> ident \<Rightarrow> relationship option" where
  "edge w a b = lookup_edge (relationships w) a b"

subsection \<open>Recording\<close>

definition recordEvent :: "payload \<Rightarrow> world \<Rightarrow> event \<times> world" where
  "recordEvent d w =
     (let n = sequenceCounter w + 1;
          ev = \<lparr>sequence = n, payload = d\<rparr>
      in (ev, w\<lparr>sequenceCounter := n, memory := memory w @ [ev]\<rparr>))"

subsection \<open>Relationships\<close>

definition fresh_edge :: relationship where
  "fresh_edge = \<lparr>model = Default, entanglement = 0, interactions = 0,
     lastInteraction = None\<rparr>"

text \<open>One round of the loop of \<open>enter\<close> over the inhabitant map.\<close>

definition enter_step ::
  "ident \<Rightarrow> ident \<Rightarrow> (ident \<rightharpoonup> (ident \<rightharpoonup> relationship)) \<Rightarrow> (ident \<rightharpoonup> (ident \<rightharpoonup> relationship))" where
  "enter_step newId otherId R =
     (if otherId \<noteq> newId then
        (case R newId of
           None \<Rightarrow> R
         | Some mine \<Rightarrow>
             (let R1 = R(newId \<mapsto> mine(otherId \<mapsto> fresh_edge))
              in case R1 otherId of
                   None \<Rightarrow> R1
                 | Some theirs \<Rightarrow> R1(otherId \<mapsto> theirs(newId \<mapsto> fresh_edge))))
      else R)"

text \<open>The branch of the broadcast loop on an edge that exists.\<close>

definition broadcast_touch :: "nat \<Rightarrow> relationship \<Rightarrow> relationship" where
  "broadcast_touch s rel =
     (let r1 = rel\<lparr>interactions := interactions rel + 1, lastInteraction := Some s\<rparr>
      in if interactions r1 > 2 then r1\<lparr>model := NonDefault\<rparr> else r1)"

definition broadcast_step ::
  "ident \<Rightarrow> nat \<Rightarrow> ident \<Rightarrow> (ident \<rightharpoonup> (ident \<rightharpoonup> relationship)) \<Rightarrow> (ident \<rightharpoonup> (ident \<rightharpoonup> relationship))" where
  "broadcast_step fromId s otherId R =
     (if otherId \<noteq> fromId then
        (case R fromId of
           None \<Rightarrow> R
         | Some mine \<Rightarrow>
             (case mine otherId of
                None \<Rightarrow> R
              | Some rel \<Rightarrow> R(fromId \<mapsto> mine(otherId \<mapsto> broadcast_touch s rel))))
      else R)"

text \<open>The update of an existing edge by a direct message, with its entanglement gain.\<close>

definition direct_touch :: "rat \<Rightarrow> nat \<Rightarrow> relationship \<Rightarrow> relationship" where
  "direct_touch gain s rel =
     (let r1 = rel\<lparr>interactions := interactions rel + 1,
                   entanglement := min 1 (js_add (entanglement rel) gain),
                   lastInteraction := Some s\<rparr>
      in if interactions r1 > 1 then r1\<lparr>model := NonDefault\<rparr> else r1)"

definition direct_step ::
  "rat \<Rightarrow> nat \<Rightarrow> ident \<Rightarrow> ident \<Rightarrow> (ident \<rightharpoonup> (ident \<rightharpoonup> relationship)) \<Rightarrow> (ident \<rightharpoonup> (ident \<rightharpoonup> relationship))" where
  "direct_step gain s a b R =
     (case R a of
        None \<Rightarrow> R
      | Some mine \<Rightarrow>
          (case mine b of
             None \<Rightarrow> R
           | Some rel \<Rightarrow> R(a \<mapsto> mine(b \<mapsto> direct_touch gain s rel))))"

definition updateRelationship :: "ident \<Rightarrow> ident \<Rightarrow> event \<Rightarrow> world \<Rightarrow> world" where
  "updateRelationship fromId toId message w =
     (if toId = ''world'' then
        w\<lparr>relationships :=
            fold (broadcast_step fromId (sequence message)) (inhabitant_ids w) (relationships w)\<rparr>
      else
        w\<lparr>relationships :=
            direct_step (lit (5 / 100)) (sequence message) toId fromId
              (direct_step (lit (1 / 10)) (sequence message) fromId toId (relationships w))\<rparr>)"

subsection \<open>Classification\<close>

definition extractTopic :: "(js_string \<Rightarrow> js_string) \<Rightarrow> js_string \<Rightarrow> js_string option" where
  "extractTopic toLowerCase content =
     (if content = [] then None
      else (case filter (\<lambda>w. length w > 4) (split_ws (toLowerCase content)) of
              [] \<Rightarrow> None
            | t # _ \<Rightarrow> Some t))"

definition is_message :: "event \<Rightarrow> bool" where
  "is_message e = (case payload e of MessageEvent _ _ _ _ _ _ \<Rightarrow> True | _ \<Rightarrow> False)"

definition content_of :: "event \<Rightarrow> js_string" where
  "content_of e = (case payload e of MessageEvent _ _ _ c _ _ \<Rightarrow> c | _ \<Rightarrow> [])"

text \<open>\<open>xs.slice(-count)\<close> for a positive count: the last \<open>count\<close> elements.\<close>

definition slice_last :: "nat \<Rightarrow> 'a list \<Rightarrow> 'a list" where
  "slice_last count xs = drop (length xs - count) xs"

definition getRecentMessages :: "nat \<Rightarrow> world \<Rightarrow> event list" where
  "getRecentMessages count w = slice_last count (filter is_message (memory w))"

definition classifyExchange ::
  "(js_string \<Rightarrow> js_string) \<Rightarrow> event \<Rightarrow> world \<Rightarrow> classification" where
  "classifyExchange toLowerCase message w =
     (let recentMessages = getRecentMessages 20 w;
          recentTopics =
            set (List.map_filter (\<lambda>m. extractTopic toLowerCase (content_of m)) recentMessages)
      in case extractTopic toLowerCase (content_of message) of
           None \<Rightarrow> Perturbation
         | Some currentTopic \<Rightarrow>
             if currentTopic \<notin> recentTopics then Fork else Perturbation)"

text \<open>
  \<open>message.classification = ...\<close>: the message is the object \<open>recordEvent\<close> pushed last,
  so the assignment shows in the last entry of the memory.
\<close>

definition set_classification :: "classification \<Rightarrow> event \<Rightarrow> event" where
  "set_classification c e =
     (case payload e of
        MessageEvent f fn t co r _ \<Rightarrow> e\<lparr>payload := MessageEvent f fn t co r (Some c)\<rparr>
      | _ \<Rightarrow> e)"

subsection \<open>Operations and subscribers\<close>

text \<open>The argument object of \<open>processMessage\<close>.\<close>

record msg_args =
  msg_from :: ident
  msg_to :: ident
  msg_content :: js_string
  msg_replyTo :: "string option"

datatype op = Enter inhabitant | Leave ident | ProcessMessage msg_args

text \<open>What \<open>emit\<close> hands to the handlers of the three event names.\<close>

datatype emitted =
    EnterData inhabitant event
  | LeaveData ident event
  | MessageData event

text \<open>
  A handler is JavaScript code that runs synchronously inside \<open>emit\<close>. Here it is the
  sequence of calls it makes on the world: it is done, it throws, or it calls an
  operation and goes on from the value the call returned and the state of the world it
  finds then.
\<close>

datatype prog = Done | Throw | Call op "event option \<Rightarrow> world \<Rightarrow> prog"

type_synonym handler = "emitted \<Rightarrow> world \<Rightarrow> prog"

text \<open>The listener registry: \<open>listeners.get(name) || []\<close>.\<close>

type_synonym listeners = "string \<Rightarrow> handler list"

definition no_listeners :: listeners where
  "no_listeners = (\<lambda>_. [])"

text \<open>
  A call either returns a value or is aborted: a handler threw, or the budget of nested
  and repeated calls ran out (a call stack is finite). The world is returned in both
  cases, since what was recorded before an exception stays recorded.
\<close>

datatype 'a outcome = Returned 'a | Aborted

definition returning :: "'a \<Rightarrow> unit outcome \<times> world \<Rightarrow> 'a outcome \<times> world" where
  "returning r res = (case res of (Aborted, w) \<Rightarrow> (Aborted, w) | (Returned _, w) \<Rightarrow> (Returned r, w))"

text \<open>The part of \<open>enter\<close> before its \<open>emit\<close>.\<close>

definition enter_record :: "inhabitant \<Rightarrow> world \<Rightarrow> event \<times> world" where
  "enter_record inh w =
     (let w1 = w\<lparr>inhabitants := DAList.update (iid inh) inh (inhabitants w)\<rparr>;
          w2 = w1\<lparr>relationships := (relationships w1)(iid inh \<mapsto> Map.empty)\<rparr>;
          w3 = w2\<lparr>relationships :=
                   fold (enter_step (iid inh)) (inhabitant_ids w2) (relationships w2)\<rparr>
      in recordEvent (EnterEvent (iid inh) (iname inh) (ikind inh)) w3)"

text \<open>The part of \<open>leave\<close> between its guard and its \<open>emit\<close>.\<close>

definition leave_record :: "ident \<Rightarrow> inhabitant \<Rightarrow> world \<Rightarrow> event \<times> world" where
  "leave_record inhabitantId inh w =
     (let (ev, w1) = recordEvent (LeaveEvent inhabitantId (iname inh)) w
      in (ev, w1\<lparr>inhabitants := DAList.delete inhabitantId (inhabitants w1)\<rparr>))"

text \<open>
  The part of \<open>processMessage\<close> between its guard and its \<open>emit\<close>: record, update the
  relationships, classify.
\<close>

definition message_record ::
  "(js_string \<Rightarrow> js_string) \<Rightarrow> inhabitant \<Rightarrow> msg_args \<Rightarrow> world \<Rightarrow> event \<times> world" where
  "message_record toLowerCase sender a w =
     (let (message, w1) =
            recordEvent (MessageEvent (msg_from a) (iname sender) (msg_to a)
                           (msg_content a) (msg_replyTo a) None) w;
          w2 = updateRelationship (msg_from a) (msg_to a) message w1;
          message' = set_classification (classifyExchange toLowerCase message w2) message
      in (message', w2\<lparr>memory := (memory w2)[length (memory w2) - 1 := message']\<rparr>))"

function (sequential)
    enter :: "nat \<Rightarrow> (js_string \<Rightarrow> js_string) \<Rightarrow> listeners \<Rightarrow> inhabitant \<Rightarrow> world
                \<Rightarrow> event option outcome \<times> world"
and leave :: "nat \<Rightarrow> (js_string \<Rightarrow> js_string) \<Rightarrow> listeners \<Rightarrow> ident \<Rightarrow> world
                \<Rightarrow> event option outcome \<times> world"
and processMessage :: "nat \<Rightarrow> (js_string \<Rightarrow> js_string) \<Rightarrow> listeners \<Rightarrow> msg_args \<Rightarrow> world
                \<Rightarrow> event option outcome \<times> world"
and emit :: "nat \<Rightarrow> (js_string \<Rightarrow> js_string) \<Rightarrow> listeners \<Rightarrow> handler list \<Rightarrow> emitted \<Rightarrow> world
                \<Rightarrow> unit outcome \<times> world"
and run_handler :: "nat \<Rightarrow> (js_string \<Rightarrow> js_string) \<Rightarrow> listeners \<Rightarrow> prog \<Rightarrow> world
                \<Rightarrow> unit outcome \<times> world"
and call :: "nat \<Rightarrow> (js_string \<Rightarrow> js_string) \<Rightarrow> listeners \<Rightarrow> op \<Rightarrow> world
                \<Rightarrow> event option outcome \<times> world"
where
  "enter n toLowerCase L inh w =
     (let (ev, w1) = enter_record inh w
      in returning (Some ev)
           (emit n toLowerCase L (L ''inhabitant:enter'') (EnterData inh ev) w1))"
| "leave n toLowerCase L inhabitantId w =
     (case DAList.lookup (inhabitants w) inhabitantId of
        None \<Rightarrow> (Returned None, w)
      | Some inh \<Rightarrow>
          (let (ev, w1) = leave_record inhabitantId inh w
           in returning (Some ev)
                (emit n toLowerCase L (L ''inhabitant:leave'') (LeaveData inhabitantId ev) w1)))"
| "processMessage n toLowerCase L a w =
     (case DAList.lookup (inhabitants w) (msg_from a) of
        None \<Rightarrow> (Returned None, w)
      | Some sender \<Rightarrow>
          (let (message, w1) = message_record toLowerCase sender a w
           in returning (Some message)
                (emit n toLowerCase L (L ''message'') (MessageData message) w1)))"
| "emit n toLowerCase L [] d w = (Returned (), w)"
| "emit n toLowerCase L (h # hs) d w =
     (case run_handler n toLowerCase L (h d w) w of
        (Aborted, w') \<Rightarrow> (Aborted, w')
      | (Returned _, w') \<Rightarrow> emit n toLowerCase L hs d w')"
| "run_handler n toLowerCase L Done w = (Returned (), w)"
| "run_handler n toLowerCase L Throw w = (Aborted, w)"
| "run_handler 0 toLowerCase L (Call c k) w = (Aborted, w)"
| "run_handler (Suc n) toLowerCase L (Call c k) w =
     (case call n toLowerCase L c w of
        (Aborted, w') \<Rightarrow> (Aborted, w')
      | (Returned r, w') \<Rightarrow> run_handler n toLowerCase L (k r w') w')"
| "call n toLowerCase L (Enter inh) w = enter n toLowerCase L inh w"
| "call n toLowerCase L (Leave i) w = leave n toLowerCase L i w"
| "call n toLowerCase L (ProcessMessage a) w = processMessage n toLowerCase L a w"
  by pat_completeness auto
termination
  by (relation "measures
        [(\<lambda>x. case x of
                Inl (Inl (n, _)) \<Rightarrow> n
              | Inl (Inr (Inl (n, _))) \<Rightarrow> n
              | Inl (Inr (Inr (n, _))) \<Rightarrow> n
              | Inr (Inl (n, _)) \<Rightarrow> n
              | Inr (Inr (Inl (n, _))) \<Rightarrow> n
              | Inr (Inr (Inr (n, _))) \<Rightarrow> n),
         (\<lambda>x. case x of
                Inl _ \<Rightarrow> 3
              | Inr (Inl _) \<Rightarrow> 2
              | Inr (Inr (Inl _)) \<Rightarrow> 1
              | Inr (Inr (Inr _)) \<Rightarrow> 4),
         (\<lambda>x. case x of
                Inr (Inl (_, _, _, hs, _)) \<Rightarrow> length hs
              | _ \<Rightarrow> 0)]")
     auto

text \<open>
  A sequence of calls made from outside, one after the other; a call that is aborted
  leaves the world as it was at the abort, and the next call goes on from there.
\<close>

fun run_ops ::
  "nat \<Rightarrow> (js_string \<Rightarrow> js_string) \<Rightarrow> listeners \<Rightarrow> op list \<Rightarrow> world \<Rightarrow> world" where
  "run_ops n toLowerCase L [] w = w"
| "run_ops n toLowerCase L (c # cs) w =
     run_ops n toLowerCase L cs (snd (call n toLowerCase L c w))"

section \<open>The agent engine (src/agent.js)\<close>

subsection \<open>Data\<close>

text \<open>A message as an agent receives it: the fields of the recorded event it reads.\<close>

record message =
  mid :: string
  m_sequence :: nat
  m_timestamp :: nat
  m_from :: ident
  m_fromName :: string
  m_to :: ident
  m_content :: js_string

text \<open>The agent's model of another inhabitant; \<open>evaluate\<close> reads its trust.\<close>

record model_of_other =
  mo_name :: string
  mo_style :: string
  trust :: rat
  mo_messageCount :: nat

record experience =
  x_sequence :: nat
  x_from :: ident
  x_fromName :: string
  x_summary :: js_string
  x_evaluation :: rat
  x_timestamp :: nat

record agent =
  aid :: ident
  interests :: "js_string list"
  evaluations :: "string \<rightharpoonup> rat"
  models :: "ident \<rightharpoonup> model_of_other"
  experienceLog :: "experience list"
  conversationTopics :: "js_string list"
  engagement :: rat
  silenceTicks :: nat

text \<open>The snapshot \<open>getState\<close> returns, as far as an agent reads it.\<close>

record world_state =
  inhabitantCount :: nat

subsection \<open>Evaluation\<close>

definition evaluate :: "(js_string \<Rightarrow> js_string) \<Rightarrow> message \<Rightarrow> agent \<Rightarrow> rat \<times> agent" where
  "evaluate toLowerCase m a =
     (let w1 = (if m_to m = aid a then js_add 0 (lit (6 / 10))
                else if m_to m = ''world'' then js_add 0 (lit (2 / 10)) else 0);
          content = toLowerCase (m_content m);
          w2 = (if list_ex (\<lambda>interest. includes_str content (toLowerCase interest)) (interests a)
                then js_add w1 (lit (3 / 10)) else w1);
          w3 = (case models a (m_from m) of
                  None \<Rightarrow> w2
                | Some mo \<Rightarrow> if trust mo > lit (5 / 10) then js_add w2 (lit (15 / 100)) else w2);
          w4 = (if includes_str content (str ''?'') then js_add w3 (lit (15 / 100)) else w3);
          weight = min 1 (max (- 1) w4)
      in (weight, a\<lparr>evaluations := (evaluations a)(mid m \<mapsto> weight)\<rparr>))"

subsection \<open>Temporal integration\<close>

definition summarize :: "js_string \<Rightarrow> js_string" where
  "summarize content =
     (if content = [] then []
      else if length content \<le> 80 then content
      else take 77 content @ str ''...'')"

definition extractConversationTopic ::
  "(js_string \<Rightarrow> js_string) \<Rightarrow> js_string \<Rightarrow> js_string option" where
  "extractConversationTopic toLowerCase content =
     (if content = [] then None
      else (case filter (\<lambda>w. length w > 5) (split_ws (toLowerCase content)) of
              [] \<Rightarrow> None
            | t # _ \<Rightarrow> Some t))"

text \<open>The entry \<open>integrateExperience\<close> pushes for a salient message.\<close>

definition experience_of :: "message \<Rightarrow> rat \<Rightarrow> experience" where
  "experience_of m evaluation =
     \<lparr>x_sequence = m_sequence m, x_from = m_from m, x_fromName = m_fromName m,
      x_summary = summarize (m_content m), x_evaluation = evaluation,
      x_timestamp = m_timestamp m\<rparr>"

definition integrateExperience ::
  "(js_string \<Rightarrow> js_string) \<Rightarrow> message \<Rightarrow> rat \<Rightarrow> agent \<Rightarrow> agent" where
  "integrateExperience toLowerCase m evaluation a =
     (let log1 = (if evaluation > lit (3 / 10)
                  then experienceLog a @ [experience_of m evaluation]
                  else experienceLog a);
          log2 = (if length log1 > 100 then take 10 log1 @ slice_last 80 log1 else log1);
          topics =
            (case extractConversationTopic toLowerCase (m_content m) of
               None \<Rightarrow> conversationTopics a
             | Some topic \<Rightarrow>
                 (let ts = conversationTopics a @ [topic]
                  in if length ts > 20 then slice_last 20 ts else ts))
      in a\<lparr>experienceLog := log2, conversationTopics := topics\<rparr>)"

subsection \<open>The decision to respond\<close>

text \<open>
  What the last branch of \<open>shouldRespond\<close> takes from \<open>Math\<close>: the value
  \<open>Math.random()\<close> returns, a number in \<open>[0, 1)\<close>, and the function \<open>Math.log2\<close>,
  which the language leaves to the implementation to approximate.
\<close>

record math =
  random :: rat
  log2 :: "rat \<Rightarrow> rat"

definition shouldRespond :: "message \<Rightarrow> rat \<Rightarrow> world_state \<Rightarrow> math \<Rightarrow> agent \<Rightarrow> bool" where
  "shouldRespond m evaluation worldState Math a =
     (if m_to m = aid a then True
      else if m_from m = aid a then False
      else
        (let p0 = js_mul evaluation (lit (5 / 10));
             p1 = js_add p0 (min (lit (3 / 10)) (js_mul (of_nat (silenceTicks a)) (lit (5 / 100))));
             count = (if inhabitantCount worldState = 0 then 1 else inhabitantCount worldState);
             p2 = js_div p1 (log2 Math (js_add (of_nat count) 1));
             p3 = js_mul p2 (engagement a)
         in random Math < p3))"

section \<open>Sequence numbers\<close>

text \<open>
  The state of the counter and of the memory that \<open>recordEvent\<close> keeps: the events carry
  the numbers 1, 2, ... in the order they were recorded, and the counter is the last one.
\<close>

definition seq_ok :: "world \<Rightarrow> bool" where
  "seq_ok w =
     (map sequence (memory w) = [1..<Suc (length (memory w))]
      \<and> sequenceCounter w = length (memory w))"

section \<open>Example inputs\<close>

definition ann :: inhabitant where
  "ann = \<lparr>iid = ''A'', iname = ''Ann'', ikind = ''human''\<rparr>"

definition bob :: inhabitant where
  "bob = \<lparr>iid = ''B'', iname = ''Bob'', ikind = ''agent''\<rparr>"

text \<open>
  The examples are ASCII strings, on which \<open>toLowerCase\<close> maps the letters A to Z to
  a to z and leaves every other code unit as it is.
\<close>

definition ascii_lower :: "js_string \<Rightarrow> js_string" where
  "ascii_lower s = map (\<lambda>c. if 65 \<le> c \<and> c \<le> 90 then c + 32 else c) s"

text \<open>The world after Ann entered, and after Bob entered too.\<close>

definition world_a :: world where
  "world_a = snd (enter 0 ascii_lower no_listeners ann new_world)"

definition world_ab :: world where
  "world_ab = snd (enter 0 ascii_lower no_listeners bob world_a)"

definition say :: "ident \<Rightarrow> ident \<Rightarrow> string \<Rightarrow> msg_args" where
  "say f t c = \<lparr>msg_from = f, msg_to = t, msg_content = str c, msg_replyTo = None\<rparr>"

text \<open>A handler that answers every message of Ann with a message of Bob.\<close>

definition echo :: handler where
  "echo d w =
     (case d of
        MessageData e \<Rightarrow>
          (case payload e of
             MessageEvent f _ _ _ _ _ \<Rightarrow>
               if f = ''A'' then Call (ProcessMessage (say ''B'' ''A'' ''noted'')) (\<lambda>_ _. Done)
               else Done
           | _ \<Rightarrow> Done)
      | _ \<Rightarrow> Done)"

definition echo_listeners :: listeners where
  "echo_listeners name = (if name = ''message'' then [echo] else [])"

text \<open>
  A handler that passes on what it receives: for every message of Ann it sends, as Bob,
  a message with the recipient and the content of the event it was handed.
\<close>

definition relay :: handler where
  "relay d w =
     (case d of
        MessageData e \<Rightarrow>
          (case payload e of
             MessageEvent f _ t c _ _ \<Rightarrow>
               if f = ''A''
               then Call (ProcessMessage \<lparr>msg_from = ''B'', msg_to = t, msg_content = c,
                                          msg_replyTo = None\<rparr>) (\<lambda>_ _. Done)
               else Done
           | _ \<Rightarrow> Done)
      | _ \<Rightarrow> Done)"

definition relay_listeners :: listeners where
  "relay_listeners name = (if name = ''message'' then [relay] else [])"

text \<open>An agent, and messages it receives.\<close>

definition vera :: agent where
  "vera = \<lparr>aid = ''V'', interests = [str ''knowledge'', str ''truth''], evaluations = Map.empty,
     models = [''A'' \<mapsto> \<lparr>mo_name = ''Ann'', mo_style = ''terse'', trust = lit (6 / 10),
                            mo_messageCount = 5\<rparr>],
     experienceLog = [], conversationTopics = [], engagement = lit (7 / 10), silenceTicks = 0\<rparr>"

definition heard :: "nat \<Rightarrow> ident \<Rightarrow> ident \<Rightarrow> string \<Rightarrow> message" where
  "heard n f t c = \<lparr>mid = ''m'', m_sequence = n, m_timestamp = n, m_from = f,
     m_fromName = ''Ann'', m_to = t, m_content = str c\<rparr>"

text \<open>A \<open>Math\<close> whose draw is 0.5 and whose \<open>log2\<close> is exact on 2 and 4.\<close>

definition some_math :: math where
  "some_math = \<lparr>random = 1 / 2, log2 = (\<lambda>x. if x = 4 then 2 else if x = 2 then 1 else 0)\<rparr>"

text \<open>Vera with a log of 100 entries, numbered 1 to 100.\<close>

definition vera_100 :: agent where
  "vera_100 = vera\<lparr>experienceLog :=
     map (\<lambda>i. experience_of (heard i ''A'' ''world'' ''hello'') (1 / 2)) [1..<101]\<rparr>"

section \<open>Properties of the world engine\<close>

subsection \<open>Sequence numbers\<close>

lemma seq_ok_new_world: "seq_ok new_world"
  by (simp add: seq_ok_def new_world_def)

lemma seq_ok_enter_record: "seq_ok w \<Longrightarrow> seq_ok (snd (enter_record inh w))"
  by (simp add: enter_record_def Let_def seq_ok_def recordEvent_def)

lemma seq_ok_leave_record: "seq_ok w \<Longrightarrow> seq_ok (snd (leave_record i inh w))"
  by (simp add: leave_record_def Let_def seq_ok_def recordEvent_def)

lemma sequence_set_classification: "sequence (set_classification c e) = sequence e"
  by (simp add: set_classification_def split: payload.splits)

lemma memory_updateRelationship: "memory (updateRelationship a b m w) = memory w"
  by (simp add: updateRelationship_def)

lemma counter_updateRelationship:
  "sequenceCounter (updateRelationship a b m w) = sequenceCounter w"
  by (simp add: updateRelationship_def)

lemma seq_ok_message_record: "seq_ok w \<Longrightarrow> seq_ok (snd (message_record lc s a w))"
  by (simp add: message_record_def Let_def seq_ok_def recordEvent_def
      memory_updateRelationship counter_updateRelationship sequence_set_classification
      map_update)

lemma snd_returning: "snd (returning r res) = snd res"
  by (cases res) (simp add: returning_def split: outcome.splits)

text \<open>
  Every operation keeps the numbering, whatever the handlers do and however deep they
  nest: by induction along the calls.
\<close>

lemma seq_ok_preserved:
  "seq_ok w \<longrightarrow> seq_ok (snd (enter n lc L inh w))"
  "seq_ok w \<longrightarrow> seq_ok (snd (leave n lc L i w))"
  "seq_ok w \<longrightarrow> seq_ok (snd (processMessage n lc L a w))"
  "seq_ok w \<longrightarrow> seq_ok (snd (emit n lc L hs d w))"
  "seq_ok w \<longrightarrow> seq_ok (snd (run_handler n lc L p w))"
  "seq_ok w \<longrightarrow> seq_ok (snd (call n lc L c w))"
proof (induction n lc L inh w and n lc L i w and n lc L a w and n lc L hs d w and n lc L p w
    and n lc L c w
    rule: enter_leave_processMessage_emit_run_handler_call.induct)
  case (1 n lc L inh w)
  obtain ev w1 where er: "enter_record inh w = (ev, w1)"
    by (cases "enter_record inh w")
  show ?case
  proof
    assume "seq_ok w"
    then have "seq_ok w1"
      using seq_ok_enter_record [of w inh] er by simp
    with "1" [OF refl er [symmetric]] show "seq_ok (snd (enter n lc L inh w))"
      by (simp add: er snd_returning)
  qed
next
  case (2 n lc L inhabitantId w)
  show ?case
  proof (cases "DAList.lookup (inhabitants w) inhabitantId")
    case None
    then show ?thesis by simp
  next
    case (Some inh)
    obtain ev w1 where lr: "leave_record inhabitantId inh w = (ev, w1)"
      by (cases "leave_record inhabitantId inh w")
    show ?thesis
    proof
      assume "seq_ok w"
      then have "seq_ok w1"
        using seq_ok_leave_record [of w inhabitantId inh] lr by simp
      with "2" [OF Some refl lr [symmetric]]
      show "seq_ok (snd (leave n lc L inhabitantId w))"
        by (simp add: Some lr snd_returning)
    qed
  qed
next
  case (3 n lc L a w)
  show ?case
  proof (cases "DAList.lookup (inhabitants w) (msg_from a)")
    case None
    then show ?thesis by simp
  next
    case (Some sender)
    obtain message w1 where mr: "message_record lc sender a w = (message, w1)"
      by (cases "message_record lc sender a w")
    show ?thesis
    proof
      assume "seq_ok w"
      then have "seq_ok w1"
        using seq_ok_message_record [of w lc sender a] mr by simp
      with "3" [OF Some refl mr [symmetric]]
      show "seq_ok (snd (processMessage n lc L a w))"
        by (simp add: Some mr snd_returning)
    qed
  qed
next
  case (4 n lc L d w)
  then show ?case by simp
next
  case (5 n lc L h hs d w)
  obtain r w' where rh: "run_handler n lc L (h d w) w = (r, w')"
    by (cases "run_handler n lc L (h d w) w")
  show ?case
  proof
    assume "seq_ok w"
    with "5.IH"(1) rh have ok': "seq_ok w'" by simp
    show "seq_ok (snd (emit n lc L (h # hs) d w))"
    proof (cases r)
      case (Returned u)
      with "5.IH"(2) [OF rh [symmetric] Returned] ok' rh show ?thesis by simp
    next
      case Aborted
      with ok' rh show ?thesis by simp
    qed
  qed
next
  case (6 n lc L w)
  then show ?case by simp
next
  case (7 n lc L w)
  then show ?case by simp
next
  case (8 lc L c k w)
  then show ?case by simp
next
  case (9 n lc L c k w)
  obtain r w' where cr: "call n lc L c w = (r, w')"
    by (cases "call n lc L c w")
  show ?case
  proof
    assume "seq_ok w"
    with "9.IH"(1) cr have ok': "seq_ok w'" by simp
    show "seq_ok (snd (run_handler (Suc n) lc L (Call c k) w))"
    proof (cases r)
      case (Returned v)
      with "9.IH"(2) [OF cr [symmetric] Returned] ok' cr show ?thesis by simp
    next
      case Aborted
      with ok' cr show ?thesis by simp
    qed
  qed
next
  case (10 n lc L inh w)
  then show ?case by simp
next
  case (11 n lc L i w)
  then show ?case by simp
next
  case (12 n lc L a w)
  then show ?case by simp
qed

lemma seq_ok_run_ops: "seq_ok w \<Longrightarrow> seq_ok (run_ops n lc L cs w)"
  by (induction cs arbitrary: w) (simp_all add: seq_ok_preserved(6))

text \<open>
  C3. After any sequence of enter, leave and processMessage calls on a new world, under
  any registered handlers (which may call the three operations again from inside an
  emission, to any depth), the events in memory carry the sequence numbers 1, 2, 3, ...
  in the order they were recorded: the i-th event has sequence i.
\<close>

theorem sequence_numbers_count_up:
  "map sequence (memory (run_ops n lc L cs new_world))
     = [1..<Suc (length (memory (run_ops n lc L cs new_world)))]"
  using seq_ok_run_ops [OF seq_ok_new_world, of n lc L cs] by (simp add: seq_ok_def)

theorem sequence_numbers_count_up_witness:
  "map sequence
     (memory (run_ops 5 ascii_lower echo_listeners
        [Enter ann, Enter bob, ProcessMessage (say ''A'' ''world'' ''hi'')] new_world))
     = [1, 2, 3, 4]"
proof -
  have len: "length (memory (run_ops 5 ascii_lower echo_listeners
        [Enter ann, Enter bob, ProcessMessage (say ''A'' ''world'' ''hi'')] new_world)) = 4"
    by code_simp
  have upt: "[1..<Suc 4] = [1, 2, 3, 4 :: nat]"
    by code_simp
  show ?thesis
    using sequence_numbers_count_up
      [of 5 ascii_lower echo_listeners "[Enter ann, Enter bob, ProcessMessage (say ''A'' ''world'' ''hi'')]"]
    by (simp only: len upt)
qed

subsection \<open>Classification\<close>

lemma slice_last_snoc: "slice_last (Suc k) (xs @ [x]) = slice_last k xs @ [x]"
  by (simp add: slice_last_def Suc_diff_le)

text \<open>
  A message that is the last entry of the memory is among the recent messages, so its
  topic is among the recent topics.
\<close>

lemma classify_recorded:
  assumes "memory w = ms @ [message]" "is_message message"
  shows "classifyExchange lc message w = Perturbation"
proof (cases "extractTopic lc (content_of message)")
  case None
  then show ?thesis by (simp add: classifyExchange_def)
next
  case (Some t)
  have "getRecentMessages 20 w = slice_last 19 (filter is_message ms) @ [message]"
    using assms slice_last_snoc [of 19 "filter is_message ms" message]
    by (simp add: getRecentMessages_def)
  then have "t \<in> set (List.map_filter (\<lambda>m. extractTopic lc (content_of m))
                        (getRecentMessages 20 w))"
    using Some by (simp add: map_filter_def)
  then show ?thesis
    using Some by (simp add: classifyExchange_def)
qed

text \<open>The message \<open>processMessage\<close> records and returns: always a perturbation.\<close>

lemma message_record_event:
  "fst (message_record lc sender a w) =
     \<lparr>sequence = Suc (sequenceCounter w),
      payload = MessageEvent (msg_from a) (iname sender) (msg_to a) (msg_content a)
                  (msg_replyTo a) (Some Perturbation)\<rparr>"
proof -
  let ?m = "\<lparr>sequence = Suc (sequenceCounter w),
      payload = MessageEvent (msg_from a) (iname sender) (msg_to a) (msg_content a)
                  (msg_replyTo a) None\<rparr>"
  let ?w2 = "updateRelationship (msg_from a) (msg_to a) ?m
               (w\<lparr>sequenceCounter := Suc (sequenceCounter w), memory := memory w @ [?m]\<rparr>)"
  have "classifyExchange lc ?m ?w2 = Perturbation"
    by (rule classify_recorded [of _ "memory w"])
       (simp_all add: memory_updateRelationship is_message_def)
  then show ?thesis
    by (simp add: message_record_def recordEvent_def Let_def set_classification_def)
qed

text \<open>
  C1. The world holds no message yet, so no recent message has the topic "biology", and
  the topic of "Biology is fascinating" is "biology", which is not empty. The claim
  asks for the classification fork; \<open>processMessage\<close> returns the message classified
  as perturbation, because the message is pushed to the memory before
  \<open>classifyExchange\<close> reads the recent messages, so that its own topic is always among
  the recent topics.
\<close>

theorem novel_topic_classified_perturbation:
  "getRecentMessages 20 world_a = []
   \<and> extractTopic ascii_lower (str ''Biology is fascinating'') = Some (str ''biology'')
   \<and> fst (processMessage 0 ascii_lower no_listeners (say ''A'' ''world'' ''Biology is fascinating'') world_a)
       = Returned (Some \<lparr>sequence = 2,
           payload = MessageEvent ''A'' ''Ann'' ''world'' (str ''Biology is fascinating'') None
                       (Some Perturbation)\<rparr>)"
  by code_simp

subsection \<open>Rejection of an unknown sender\<close>

text \<open>
  C4. A call of \<open>processMessage\<close> whose sender is not an active inhabitant returns null
  and leaves the whole world as it was: the memory, the relationship graph, the sequence
  counter (and the inhabitants), under any handlers.
\<close>

theorem processMessage_unknown_sender:
  "DAList.lookup (inhabitants w) (msg_from a) = None
   \<Longrightarrow> processMessage n lc L a w = (Returned None, w)"
  by simp

theorem processMessage_unknown_sender_witness:
  "DAList.lookup (inhabitants world_a) (msg_from (say ''B'' ''A'' ''hello'')) = None
   \<and> processMessage 3 ascii_lower echo_listeners (say ''B'' ''A'' ''hello'') world_a
       = (Returned None, world_a)"
proof -
  have h: "DAList.lookup (inhabitants world_a) (msg_from (say ''B'' ''A'' ''hello'')) = None"
    by code_simp
  show ?thesis
    using h processMessage_unknown_sender [OF h, of 3 ascii_lower echo_listeners] by simp
qed

subsection \<open>Relationship edges\<close>

lemma direct_step_edge:
  "lookup_edge (direct_step g s a b R) x y =
     (if x = a \<and> y = b then map_option (direct_touch g s) (lookup_edge R a b)
      else lookup_edge R x y)"
  by (simp add: lookup_edge_def direct_step_def split: option.splits)

lemma direct_step_absent: "lookup_edge R a b = None \<Longrightarrow> direct_step g s a b R = R"
  by (simp add: lookup_edge_def direct_step_def split: option.splits)

lemma broadcast_step_edge:
  "lookup_edge (broadcast_step A s other R) x y =
     (if x = A \<and> y = other \<and> other \<noteq> A then map_option (broadcast_touch s) (lookup_edge R x y)
      else lookup_edge R x y)"
  by (simp add: lookup_edge_def broadcast_step_def split: option.splits)

lemma fold_broadcast_edge:
  "distinct ids \<Longrightarrow>
   lookup_edge (fold (broadcast_step A s) ids R) x y =
     (if x = A \<and> y \<in> set ids \<and> y \<noteq> A then map_option (broadcast_touch s) (lookup_edge R x y)
      else lookup_edge R x y)"
proof (induction ids arbitrary: R)
  case Nil
  then show ?case by simp
next
  case (Cons i ids)
  have d: "distinct ids" and ni: "i \<notin> set ids"
    using Cons.prems by simp_all
  have "lookup_edge (fold (broadcast_step A s) (i # ids) R) x y
      = lookup_edge (fold (broadcast_step A s) ids (broadcast_step A s i R)) x y"
    by simp
  also have "\<dots> = (if x = A \<and> y \<in> set ids \<and> y \<noteq> A
                     then map_option (broadcast_touch s) (lookup_edge (broadcast_step A s i R) x y)
                     else lookup_edge (broadcast_step A s i R) x y)"
    by (rule Cons.IH [OF d])
  also have "\<dots> = (if x = A \<and> y \<in> set (i # ids) \<and> y \<noteq> A
                     then map_option (broadcast_touch s) (lookup_edge R x y)
                     else lookup_edge R x y)"
    using ni by (cases "y = i") (simp_all add: broadcast_step_edge)
  finally show ?case .
qed

lemma relationships_message_record:
  "relationships (snd (message_record lc sender a w)) =
     (if msg_to a = ''world''
      then fold (broadcast_step (msg_from a) (Suc (sequenceCounter w))) (inhabitant_ids w)
             (relationships w)
      else direct_step (lit (5 / 100)) (Suc (sequenceCounter w)) (msg_to a) (msg_from a)
             (direct_step (lit (1 / 10)) (Suc (sequenceCounter w)) (msg_from a) (msg_to a)
                (relationships w)))"
  by (simp add: message_record_def recordEvent_def Let_def updateRelationship_def
      inhabitant_ids_def)

lemma inhabitants_message_record:
  "inhabitants (snd (message_record lc sender a w)) = inhabitants w"
  by (simp add: message_record_def recordEvent_def Let_def updateRelationship_def)

lemma counter_message_record:
  "sequenceCounter (snd (message_record lc sender a w)) = Suc (sequenceCounter w)"
  by (simp add: message_record_def recordEvent_def Let_def updateRelationship_def)

lemma memory_message_record:
  "memory (snd (message_record lc sender a w)) = memory w @ [fst (message_record lc sender a w)]"
  by (simp add: message_record_def recordEvent_def Let_def memory_updateRelationship)

text \<open>Without listeners an operation returns what it recorded.\<close>

lemma processMessage_quiet:
  "DAList.lookup (inhabitants w) (msg_from a) = Some sender \<Longrightarrow>
   processMessage n lc no_listeners a w
     = (Returned (Some (fst (message_record lc sender a w))), snd (message_record lc sender a w))"
  by (simp add: no_listeners_def returning_def case_prod_beta)

lemma enter_quiet:
  "enter n lc no_listeners inh w
     = (Returned (Some (fst (enter_record inh w))), snd (enter_record inh w))"
  by (simp add: no_listeners_def returning_def case_prod_beta)

lemma processMessage_active:
  "DAList.lookup (inhabitants w) (msg_from a) = Some sender \<Longrightarrow>
   processMessage n lc L a w
     = returning (Some (fst (message_record lc sender a w)))
         (emit n lc L (L ''message'') (MessageData (fst (message_record lc sender a w)))
            (snd (message_record lc sender a w)))"
  by (simp add: case_prod_beta)

lemma fst_returning_not_null: "fst (returning (Some r) res) \<noteq> Returned None"
  by (cases res) (simp add: returning_def split: outcome.splits)

subsection \<open>Entering\<close>

lemma enter_step_dom: "(enter_step nid other R z = None) = (R z = None)"
  by (simp add: enter_step_def Let_def split: option.splits)

lemma enter_step_edge:
  "R nid \<noteq> None \<Longrightarrow>
   lookup_edge (enter_step nid other R) x y =
     (if other \<noteq> nid \<and> x = nid \<and> y = other then Some fresh_edge
      else if other \<noteq> nid \<and> x = other \<and> y = nid \<and> R other \<noteq> None then Some fresh_edge
      else lookup_edge R x y)"
  by (auto simp: enter_step_def lookup_edge_def Let_def split: option.splits)

lemma fold_enter_step_dom: "(fold (enter_step nid) ids R z = None) = (R z = None)"
  by (induction ids arbitrary: R) (simp_all add: enter_step_dom)

lemma fold_enter_step_edge:
  "R nid \<noteq> None \<Longrightarrow>
   lookup_edge (fold (enter_step nid) ids R) x y =
     (if x = nid \<and> y \<in> set ids \<and> y \<noteq> nid then Some fresh_edge
      else if y = nid \<and> x \<in> set ids \<and> x \<noteq> nid \<and> R x \<noteq> None then Some fresh_edge
      else lookup_edge R x y)"
proof (induction ids arbitrary: R)
  case Nil
  then show ?case by simp
next
  case (Cons i ids)
  let ?R' = "enter_step nid i R"
  have nn: "?R' nid \<noteq> None"
    using Cons.prems by (simp add: enter_step_dom)
  have dom: "(?R' x \<noteq> None) = (R x \<noteq> None)"
    by (simp add: enter_step_dom)
  have st: "lookup_edge ?R' x y =
     (if i \<noteq> nid \<and> x = nid \<and> y = i then Some fresh_edge
      else if i \<noteq> nid \<and> x = i \<and> y = nid \<and> R i \<noteq> None then Some fresh_edge
      else lookup_edge R x y)"
    by (rule enter_step_edge) (rule Cons.prems)
  have "lookup_edge (fold (enter_step nid) (i # ids) R) x y
      = lookup_edge (fold (enter_step nid) ids ?R') x y"
    by simp
  also have "\<dots> = (if x = nid \<and> y \<in> set ids \<and> y \<noteq> nid then Some fresh_edge
      else if y = nid \<and> x \<in> set ids \<and> x \<noteq> nid \<and> ?R' x \<noteq> None then Some fresh_edge
      else lookup_edge ?R' x y)"
    using Cons.IH [of ?R'] nn by simp
  also have "\<dots> = (if x = nid \<and> y \<in> set (i # ids) \<and> y \<noteq> nid then Some fresh_edge
      else if y = nid \<and> x \<in> set (i # ids) \<and> x \<noteq> nid \<and> R x \<noteq> None then Some fresh_edge
      else lookup_edge R x y)"
    unfolding dom st
    by (cases "x = nid"; cases "y = nid"; cases "x = i"; cases "y = i"; cases "R x"; simp)
  finally show ?case .
qed


lemma enter_record_relationships:
  "relationships (snd (enter_record inh w)) =
     fold (enter_step (iid inh))
       (map fst (DAList.impl_of (DAList.update (iid inh) inh (inhabitants w))))
       ((relationships w)(iid inh \<mapsto> Map.empty))"
  by (simp add: enter_record_def recordEvent_def Let_def inhabitant_ids_def)

lemma enter_record_inhabitants:
  "inhabitants (snd (enter_record inh w)) = DAList.update (iid inh) inh (inhabitants w)"
  by (simp add: enter_record_def recordEvent_def Let_def)

lemma enter_record_row: "relationships (snd (enter_record inh w)) (iid inh) \<noteq> None"
  by (simp add: enter_record_relationships fold_enter_step_dom)

lemma enter_record_edges:
  assumes "DAList.lookup (inhabitants w) other = Some oth" "other \<noteq> iid inh"
    "relationships w other \<noteq> None"
  shows "edge (snd (enter_record inh w)) (iid inh) other = Some fresh_edge"
    and "edge (snd (enter_record inh w)) other (iid inh) = Some fresh_edge"
proof -
  let ?ids = "map fst (DAList.impl_of (DAList.update (iid inh) inh (inhabitants w)))"
  have "DAList.lookup (DAList.update (iid inh) inh (inhabitants w)) other = Some oth"
    using assms(1,2) by simp
  then have mem: "other \<in> set ?ids"
    by (auto simp: DAList.lookup.rep_eq dest!: map_of_SomeD intro: rev_image_eqI)
  have row: "((relationships w)(iid inh \<mapsto> Map.empty)) (iid inh) \<noteq> None"
    by simp
  show "edge (snd (enter_record inh w)) (iid inh) other = Some fresh_edge"
    using mem assms(2)
    by (simp add: edge_def enter_record_relationships fold_enter_step_edge [where R = "(relationships w)(iid inh \<mapsto> Map.empty)" and nid = "iid inh", OF row])
  show "edge (snd (enter_record inh w)) other (iid inh) = Some fresh_edge"
    using mem assms(2,3)
    by (simp add: edge_def enter_record_relationships fold_enter_step_edge [where R = "(relationships w)(iid inh \<mapsto> Map.empty)" and nid = "iid inh", OF row])
qed

text \<open>
  After two inhabitants with different ids entered, one after the other, both are
  active and the edges between them are fresh, whatever the world was before.
\<close>

lemma entered_pair_fresh:
  assumes "iid a \<noteq> iid b"
  shows "edge (run_ops n lc no_listeners [Enter a, Enter b] w) (iid a) (iid b) = Some fresh_edge
       \<and> edge (run_ops n lc no_listeners [Enter a, Enter b] w) (iid b) (iid a) = Some fresh_edge
       \<and> DAList.lookup (inhabitants (run_ops n lc no_listeners [Enter a, Enter b] w)) (iid a)
           = Some a
       \<and> DAList.lookup (inhabitants (run_ops n lc no_listeners [Enter a, Enter b] w)) (iid b)
           = Some b"
proof -
  let ?w1 = "snd (enter_record a w)"
  let ?w2 = "snd (enter_record b ?w1)"
  have run: "run_ops n lc no_listeners [Enter a, Enter b] w = ?w2"
    by (simp add: enter_quiet del: enter.simps)
  have act: "DAList.lookup (inhabitants ?w1) (iid a) = Some a"
    by (simp add: enter_record_inhabitants)
  have row: "relationships ?w1 (iid a) \<noteq> None"
    by (rule enter_record_row)
  have act2: "DAList.lookup (inhabitants ?w2) (iid a) = Some a"
    using assms by (simp add: enter_record_inhabitants)
  have act3: "DAList.lookup (inhabitants ?w2) (iid b) = Some b"
    by (simp add: enter_record_inhabitants)
  show ?thesis
    unfolding run
    using enter_record_edges [OF act assms row] act2 act3 by simp
qed

subsection \<open>Direct messages\<close>

lemma direct_touch_twice:
  "direct_touch g s2 (direct_touch g s1 fresh_edge)
     = \<lparr>model = NonDefault, entanglement = min 1 (js_add (min 1 (js_add 0 g)) g),
        interactions = 2, lastInteraction = Some s2\<rparr>"
  by (simp add: direct_touch_def fresh_edge_def Let_def)

text \<open>In doubles, 0.1 + 0.1 is the double 0.2, and 0.05 + 0.05 is the double 0.1.\<close>

lemma addressing_twice:
  "min 1 (js_add (min 1 (js_add 0 (lit (1 / 10)))) (lit (1 / 10))) = lit (2 / 10)"
  by code_simp

lemma addressed_twice:
  "min 1 (js_add (min 1 (js_add 0 (lit (5 / 100)))) (lit (5 / 100))) = lit (1 / 10)"
  by code_simp

text \<open>
  The rounding is part of the model: the literal 0.1 is the double
  3602879701896397 / 2^55, and 0.1 + 0.2 is not the double 0.3.
\<close>

lemma tenth_as_double: "lit (1 / 10) = 3602879701896397 / 2 ^ 55"
  by code_simp

lemma rounding_shows: "js_add (lit (1 / 10)) (lit (2 / 10)) \<noteq> lit (3 / 10)"
  by code_simp

lemma direct_message_edges:
  assumes "msg_from a \<noteq> msg_to a" "msg_to a \<noteq> ''world''"
  shows "edge (snd (message_record lc sender a w)) (msg_from a) (msg_to a)
           = map_option (direct_touch (lit (1 / 10)) (Suc (sequenceCounter w)))
               (edge w (msg_from a) (msg_to a))"
    and "edge (snd (message_record lc sender a w)) (msg_to a) (msg_from a)
           = map_option (direct_touch (lit (5 / 100)) (Suc (sequenceCounter w)))
               (edge w (msg_to a) (msg_from a))"
  using assms by (simp_all add: edge_def relationships_message_record direct_step_edge)

lemma two_direct_edges:
  assumes ne: "A \<noteq> B" and nw: "B \<noteq> ''world''"
    and act: "DAList.lookup (inhabitants w) A = Some sender"
    and ab: "edge w A B = Some fresh_edge" and ba: "edge w B A = Some fresh_edge"
  shows "edge (run_ops n lc no_listeners
                 [ProcessMessage \<lparr>msg_from = A, msg_to = B, msg_content = c1, msg_replyTo = r1\<rparr>,
                  ProcessMessage \<lparr>msg_from = A, msg_to = B, msg_content = c2, msg_replyTo = r2\<rparr>] w) A B
           = Some \<lparr>model = NonDefault, entanglement = lit (2 / 10), interactions = 2,
                   lastInteraction = Some (sequenceCounter w + 2)\<rparr>
       \<and> edge (run_ops n lc no_listeners
                 [ProcessMessage \<lparr>msg_from = A, msg_to = B, msg_content = c1, msg_replyTo = r1\<rparr>,
                  ProcessMessage \<lparr>msg_from = A, msg_to = B, msg_content = c2, msg_replyTo = r2\<rparr>] w) B A
           = Some \<lparr>model = NonDefault, entanglement = lit (1 / 10), interactions = 2,
                   lastInteraction = Some (sequenceCounter w + 2)\<rparr>"
proof -
  let ?a1 = "\<lparr>msg_from = A, msg_to = B, msg_content = c1, msg_replyTo = r1\<rparr>"
  let ?a2 = "\<lparr>msg_from = A, msg_to = B, msg_content = c2, msg_replyTo = r2\<rparr>"
  let ?w1 = "snd (message_record lc sender ?a1 w)"
  let ?w2 = "snd (message_record lc sender ?a2 ?w1)"
  have p1: "processMessage n lc no_listeners ?a1 w = (Returned (Some (fst (message_record lc sender ?a1 w))), ?w1)"
    using act by (simp add: processMessage_quiet del: processMessage.simps)
  have act1: "DAList.lookup (inhabitants ?w1) A = Some sender"
    using act by (simp add: inhabitants_message_record)
  have p2: "processMessage n lc no_listeners ?a2 ?w1 = (Returned (Some (fst (message_record lc sender ?a2 ?w1))), ?w2)"
    using act1 by (simp add: processMessage_quiet del: processMessage.simps)
  have run: "run_ops n lc no_listeners [ProcessMessage ?a1, ProcessMessage ?a2] w = ?w2"
    by (simp add: p1 p2 del: processMessage.simps)
  have e1: "edge ?w1 A B = Some (direct_touch (lit (1 / 10)) (Suc (sequenceCounter w)) fresh_edge)"
    using direct_message_edges(1) [of ?a1 lc sender w] ne nw ab by simp
  have f1: "edge ?w1 B A = Some (direct_touch (lit (5 / 100)) (Suc (sequenceCounter w)) fresh_edge)"
    using direct_message_edges(2) [of ?a1 lc sender w] ne nw ba by simp
  have e2: "edge ?w2 A B = Some (direct_touch (lit (1 / 10)) (Suc (Suc (sequenceCounter w)))
                                  (direct_touch (lit (1 / 10)) (Suc (sequenceCounter w)) fresh_edge))"
    using direct_message_edges(1) [of ?a2 lc sender ?w1] ne nw e1
    by (simp add: counter_message_record)
  have f2: "edge ?w2 B A = Some (direct_touch (lit (5 / 100)) (Suc (Suc (sequenceCounter w)))
                                  (direct_touch (lit (5 / 100)) (Suc (sequenceCounter w)) fresh_edge))"
    using direct_message_edges(2) [of ?a2 lc sender ?w1] ne nw f1
    by (simp add: counter_message_record)
  show ?thesis
    unfolding run e2 f2 direct_touch_twice addressing_twice addressed_twice by simp
qed

text \<open>
  C6. In a world where A is active and fresh edges (entanglement 0, interactions 0,
  default) exist from A to B and from B to A, as they do once A and B entered, two direct
  messages from A to B (B is another inhabitant, not the broadcast target) leave the edge
  from A to B with entanglement 0.2 and the edge from B to A with entanglement 0.1 (the
  doubles that these literals denote), both non-default, both with 2 interactions.
\<close>

theorem two_direct_messages_entangle:
  assumes "A \<noteq> B" and "B \<noteq> ''world''"
    and "DAList.lookup (inhabitants w) A = Some sender"
    and "edge w A B = Some fresh_edge" and "edge w B A = Some fresh_edge"
  shows "edge (run_ops n lc no_listeners
                 [ProcessMessage \<lparr>msg_from = A, msg_to = B, msg_content = c1, msg_replyTo = r1\<rparr>,
                  ProcessMessage \<lparr>msg_from = A, msg_to = B, msg_content = c2, msg_replyTo = r2\<rparr>] w) A B
           = Some \<lparr>model = NonDefault, entanglement = lit (2 / 10), interactions = 2,
                   lastInteraction = Some (sequenceCounter w + 2)\<rparr>
       \<and> edge (run_ops n lc no_listeners
                 [ProcessMessage \<lparr>msg_from = A, msg_to = B, msg_content = c1, msg_replyTo = r1\<rparr>,
                  ProcessMessage \<lparr>msg_from = A, msg_to = B, msg_content = c2, msg_replyTo = r2\<rparr>] w) B A
           = Some \<lparr>model = NonDefault, entanglement = lit (1 / 10), interactions = 2,
                   lastInteraction = Some (sequenceCounter w + 2)\<rparr>"
  using assms by (rule two_direct_edges)

theorem two_direct_messages_entangle_witness:
  "''A'' \<noteq> ''B'' \<and> ''B'' \<noteq> ''world''
   \<and> DAList.lookup (inhabitants world_ab) ''A'' = Some ann
   \<and> edge world_ab ''A'' ''B'' = Some fresh_edge
   \<and> edge world_ab ''B'' ''A'' = Some fresh_edge
   \<and> edge (run_ops 0 ascii_lower no_listeners
        [ProcessMessage \<lparr>msg_from = ''A'', msg_to = ''B'', msg_content = str ''hello'', msg_replyTo = None\<rparr>,
         ProcessMessage \<lparr>msg_from = ''A'', msg_to = ''B'', msg_content = str ''again'', msg_replyTo = None\<rparr>]
        world_ab) ''A'' ''B''
       = Some \<lparr>model = NonDefault, entanglement = lit (2 / 10), interactions = 2,
               lastInteraction = Some (sequenceCounter world_ab + 2)\<rparr>
   \<and> edge (run_ops 0 ascii_lower no_listeners
        [ProcessMessage \<lparr>msg_from = ''A'', msg_to = ''B'', msg_content = str ''hello'', msg_replyTo = None\<rparr>,
         ProcessMessage \<lparr>msg_from = ''A'', msg_to = ''B'', msg_content = str ''again'', msg_replyTo = None\<rparr>]
        world_ab) ''B'' ''A''
       = Some \<lparr>model = NonDefault, entanglement = lit (1 / 10), interactions = 2,
               lastInteraction = Some (sequenceCounter world_ab + 2)\<rparr>"
proof -
  have h1: "''A'' \<noteq> ''B''" by simp
  have h2: "''B'' \<noteq> ''world''" by simp
  have h3: "DAList.lookup (inhabitants world_ab) ''A'' = Some ann" by code_simp
  have h4: "edge world_ab ''A'' ''B'' = Some fresh_edge" by code_simp
  have h5: "edge world_ab ''B'' ''A'' = Some fresh_edge" by code_simp
  from h1 h2 h3 h4 h5
    two_direct_messages_entangle
      [OF h1 h2 h3 h4 h5, of 0 ascii_lower "str ''hello''" None "str ''again''" None]
  show ?thesis by blast
qed

text \<open>The same from any world, with the two entries spelled out.\<close>

lemma entered_then_two_direct_messages:
  assumes "iid a \<noteq> iid b" "iid b \<noteq> ''world''"
  shows "edge (run_ops n lc no_listeners
                 [ProcessMessage \<lparr>msg_from = iid a, msg_to = iid b, msg_content = c1, msg_replyTo = r1\<rparr>,
                  ProcessMessage \<lparr>msg_from = iid a, msg_to = iid b, msg_content = c2, msg_replyTo = r2\<rparr>]
                 (run_ops n lc no_listeners [Enter a, Enter b] w)) (iid a) (iid b)
           = Some \<lparr>model = NonDefault, entanglement = lit (2 / 10), interactions = 2,
                   lastInteraction = Some (sequenceCounter w + 4)\<rparr>
       \<and> edge (run_ops n lc no_listeners
                 [ProcessMessage \<lparr>msg_from = iid a, msg_to = iid b, msg_content = c1, msg_replyTo = r1\<rparr>,
                  ProcessMessage \<lparr>msg_from = iid a, msg_to = iid b, msg_content = c2, msg_replyTo = r2\<rparr>]
                 (run_ops n lc no_listeners [Enter a, Enter b] w)) (iid b) (iid a)
           = Some \<lparr>model = NonDefault, entanglement = lit (1 / 10), interactions = 2,
                   lastInteraction = Some (sequenceCounter w + 4)\<rparr>"
proof -
  let ?w = "run_ops n lc no_listeners [Enter a, Enter b] w"
  have c: "sequenceCounter ?w = sequenceCounter w + 2"
    by (simp add: enter_quiet enter_record_def recordEvent_def Let_def del: enter.simps)
  have f: "edge ?w (iid a) (iid b) = Some fresh_edge" "edge ?w (iid b) (iid a) = Some fresh_edge"
    "DAList.lookup (inhabitants ?w) (iid a) = Some a"
    using entered_pair_fresh [OF assms(1), of n lc w] by simp_all
  show ?thesis
    using two_direct_edges [OF assms(1,2) f(3) f(1) f(2), of n lc c1 r1 c2 r2]
    by (simp only: c add.assoc) simp
qed

subsection \<open>Broadcasts\<close>

lemma active_in_ids:
  "DAList.lookup (inhabitants w) i = Some inh \<Longrightarrow> i \<in> set (inhabitant_ids w)"
  by (auto simp: inhabitant_ids_def DAList.lookup.rep_eq dest!: map_of_SomeD intro: rev_image_eqI)

lemma distinct_inhabitant_ids: "distinct (inhabitant_ids w)"
  by (simp add: inhabitant_ids_def)

lemma broadcast_message_edge:
  assumes "msg_to a = ''world''" "B \<noteq> msg_from a"
    and "DAList.lookup (inhabitants w) B = Some t"
  shows "edge (snd (message_record lc sender a w)) (msg_from a) B
           = map_option (broadcast_touch (Suc (sequenceCounter w))) (edge w (msg_from a) B)"
  using assms active_in_ids [OF assms(3)]
  by (simp add: edge_def relationships_message_record
      fold_broadcast_edge [OF distinct_inhabitant_ids])

lemma three_broadcast_edges:
  assumes ne: "A \<noteq> B"
    and actA: "DAList.lookup (inhabitants w) A = Some sender"
    and actB: "DAList.lookup (inhabitants w) B = Some other"
    and ab: "edge w A B = Some r0" and i0: "interactions r0 = 0" and m0: "model r0 = Default"
  shows "edge (run_ops n lc no_listeners
                 [ProcessMessage \<lparr>msg_from = A, msg_to = ''world'', msg_content = c1, msg_replyTo = r1\<rparr>] w) A B
           = Some \<lparr>model = Default, entanglement = entanglement r0, interactions = 1,
                   lastInteraction = Some (sequenceCounter w + 1)\<rparr>
       \<and> edge (run_ops n lc no_listeners
                 [ProcessMessage \<lparr>msg_from = A, msg_to = ''world'', msg_content = c1, msg_replyTo = r1\<rparr>,
                  ProcessMessage \<lparr>msg_from = A, msg_to = ''world'', msg_content = c2, msg_replyTo = r2\<rparr>] w) A B
           = Some \<lparr>model = Default, entanglement = entanglement r0, interactions = 2,
                   lastInteraction = Some (sequenceCounter w + 2)\<rparr>
       \<and> edge (run_ops n lc no_listeners
                 [ProcessMessage \<lparr>msg_from = A, msg_to = ''world'', msg_content = c1, msg_replyTo = r1\<rparr>,
                  ProcessMessage \<lparr>msg_from = A, msg_to = ''world'', msg_content = c2, msg_replyTo = r2\<rparr>,
                  ProcessMessage \<lparr>msg_from = A, msg_to = ''world'', msg_content = c3, msg_replyTo = r3\<rparr>] w) A B
           = Some \<lparr>model = NonDefault, entanglement = entanglement r0, interactions = 3,
                   lastInteraction = Some (sequenceCounter w + 3)\<rparr>"
proof -
  let ?a1 = "\<lparr>msg_from = A, msg_to = ''world'', msg_content = c1, msg_replyTo = r1\<rparr>"
  let ?a2 = "\<lparr>msg_from = A, msg_to = ''world'', msg_content = c2, msg_replyTo = r2\<rparr>"
  let ?a3 = "\<lparr>msg_from = A, msg_to = ''world'', msg_content = c3, msg_replyTo = r3\<rparr>"
  let ?w1 = "snd (message_record lc sender ?a1 w)"
  let ?w2 = "snd (message_record lc sender ?a2 ?w1)"
  let ?w3 = "snd (message_record lc sender ?a3 ?w2)"
  let ?s = "sequenceCounter w"
  have p1: "processMessage n lc no_listeners ?a1 w
              = (Returned (Some (fst (message_record lc sender ?a1 w))), ?w1)"
    using actA by (simp add: processMessage_quiet del: processMessage.simps)
  have p2: "processMessage n lc no_listeners ?a2 ?w1
              = (Returned (Some (fst (message_record lc sender ?a2 ?w1))), ?w2)"
    using actA by (simp add: processMessage_quiet inhabitants_message_record
        del: processMessage.simps)
  have p3: "processMessage n lc no_listeners ?a3 ?w2
              = (Returned (Some (fst (message_record lc sender ?a3 ?w2))), ?w3)"
    using actA by (simp add: processMessage_quiet inhabitants_message_record
        del: processMessage.simps)
  have run1: "run_ops n lc no_listeners [ProcessMessage ?a1] w = ?w1"
    by (simp add: p1 del: processMessage.simps)
  have run2: "run_ops n lc no_listeners [ProcessMessage ?a1, ProcessMessage ?a2] w = ?w2"
    by (simp add: p1 p2 del: processMessage.simps)
  have run3: "run_ops n lc no_listeners
                [ProcessMessage ?a1, ProcessMessage ?a2, ProcessMessage ?a3] w = ?w3"
    by (simp add: p1 p2 p3 del: processMessage.simps)
  have e1: "edge ?w1 A B = Some (broadcast_touch (Suc ?s) r0)"
    using broadcast_message_edge [of ?a1 B w other lc sender] ne actB ab by simp
  have e2: "edge ?w2 A B = Some (broadcast_touch (Suc (Suc ?s)) (broadcast_touch (Suc ?s) r0))"
    using broadcast_message_edge [of ?a2 B ?w1 other lc sender] ne actB e1
    by (simp add: inhabitants_message_record counter_message_record)
  have e3: "edge ?w3 A B = Some (broadcast_touch (Suc (Suc (Suc ?s)))
              (broadcast_touch (Suc (Suc ?s)) (broadcast_touch (Suc ?s) r0)))"
    using broadcast_message_edge [of ?a3 B ?w2 other lc sender] ne actB e2
    by (simp add: inhabitants_message_record counter_message_record)
  have t1: "broadcast_touch (Suc ?s) r0 = r0\<lparr>interactions := 1, lastInteraction := Some (?s + 1)\<rparr>"
    using i0 by (simp add: broadcast_touch_def Let_def)
  have x1: "r0\<lparr>interactions := 1, lastInteraction := Some (?s + 1)\<rparr>
              = \<lparr>model = Default, entanglement = entanglement r0, interactions = 1,
                 lastInteraction = Some (?s + 1)\<rparr>"
    using m0 by (cases r0) simp
  have x2: "r0\<lparr>interactions := 2, lastInteraction := Some (?s + 2)\<rparr>
              = \<lparr>model = Default, entanglement = entanglement r0, interactions = 2,
                 lastInteraction = Some (?s + 2)\<rparr>"
    using m0 by (cases r0) simp
  have x3: "r0\<lparr>interactions := 3, lastInteraction := Some (?s + 3), model := NonDefault\<rparr>
              = \<lparr>model = NonDefault, entanglement = entanglement r0, interactions = 3,
                 lastInteraction = Some (?s + 3)\<rparr>"
    by (cases r0) simp
  have t2: "broadcast_touch (Suc (Suc ?s)) (r0\<lparr>interactions := 1, lastInteraction := Some (?s + 1)\<rparr>)
              = r0\<lparr>interactions := 2, lastInteraction := Some (?s + 2)\<rparr>"
    by (simp add: broadcast_touch_def Let_def)
  have t3: "broadcast_touch (Suc (Suc (Suc ?s))) (r0\<lparr>interactions := 2, lastInteraction := Some (?s + 2)\<rparr>)
              = r0\<lparr>interactions := 3, lastInteraction := Some (?s + 3), model := NonDefault\<rparr>"
    by (simp add: broadcast_touch_def Let_def)
  show ?thesis
    unfolding run1 run2 run3 e1 e2 e3 t1 t2 t3 using x1 x2 x3 by simp
qed

text \<open>
  C7. In a world where A and B are both active and the edge from A to B is a default edge
  without interactions, every broadcast from A adds one interaction to that edge and
  sets its last-interaction sequence to the sequence of the broadcast, and leaves its
  entanglement as it was; the edge is still default after the first and after the second
  broadcast and is non-default after the third.
\<close>

theorem three_broadcasts_promote:
  assumes "A \<noteq> B"
    and "DAList.lookup (inhabitants w) A = Some sender"
    and "DAList.lookup (inhabitants w) B = Some other"
    and "edge w A B = Some r0" and "interactions r0 = 0" and "model r0 = Default"
  shows "edge (run_ops n lc no_listeners
                 [ProcessMessage \<lparr>msg_from = A, msg_to = ''world'', msg_content = c1, msg_replyTo = r1\<rparr>] w) A B
           = Some \<lparr>model = Default, entanglement = entanglement r0, interactions = 1,
                   lastInteraction = Some (sequenceCounter w + 1)\<rparr>
       \<and> edge (run_ops n lc no_listeners
                 [ProcessMessage \<lparr>msg_from = A, msg_to = ''world'', msg_content = c1, msg_replyTo = r1\<rparr>,
                  ProcessMessage \<lparr>msg_from = A, msg_to = ''world'', msg_content = c2, msg_replyTo = r2\<rparr>] w) A B
           = Some \<lparr>model = Default, entanglement = entanglement r0, interactions = 2,
                   lastInteraction = Some (sequenceCounter w + 2)\<rparr>
       \<and> edge (run_ops n lc no_listeners
                 [ProcessMessage \<lparr>msg_from = A, msg_to = ''world'', msg_content = c1, msg_replyTo = r1\<rparr>,
                  ProcessMessage \<lparr>msg_from = A, msg_to = ''world'', msg_content = c2, msg_replyTo = r2\<rparr>,
                  ProcessMessage \<lparr>msg_from = A, msg_to = ''world'', msg_content = c3, msg_replyTo = r3\<rparr>] w) A B
           = Some \<lparr>model = NonDefault, entanglement = entanglement r0, interactions = 3,
                   lastInteraction = Some (sequenceCounter w + 3)\<rparr>"
  using assms by (rule three_broadcast_edges)

theorem three_broadcasts_promote_witness:
  "''A'' \<noteq> ''B''
   \<and> DAList.lookup (inhabitants world_ab) ''A'' = Some ann
   \<and> DAList.lookup (inhabitants world_ab) ''B'' = Some bob
   \<and> edge world_ab ''A'' ''B'' = Some fresh_edge
   \<and> interactions fresh_edge = 0 \<and> model fresh_edge = Default
   \<and> edge (run_ops 0 ascii_lower no_listeners
        [ProcessMessage \<lparr>msg_from = ''A'', msg_to = ''world'', msg_content = str ''one'', msg_replyTo = None\<rparr>,
         ProcessMessage \<lparr>msg_from = ''A'', msg_to = ''world'', msg_content = str ''two'', msg_replyTo = None\<rparr>]
        world_ab) ''A'' ''B''
       = Some \<lparr>model = Default, entanglement = entanglement fresh_edge, interactions = 2,
               lastInteraction = Some (sequenceCounter world_ab + 2)\<rparr>
   \<and> edge (run_ops 0 ascii_lower no_listeners
        [ProcessMessage \<lparr>msg_from = ''A'', msg_to = ''world'', msg_content = str ''one'', msg_replyTo = None\<rparr>,
         ProcessMessage \<lparr>msg_from = ''A'', msg_to = ''world'', msg_content = str ''two'', msg_replyTo = None\<rparr>,
         ProcessMessage \<lparr>msg_from = ''A'', msg_to = ''world'', msg_content = str ''three'', msg_replyTo = None\<rparr>]
        world_ab) ''A'' ''B''
       = Some \<lparr>model = NonDefault, entanglement = entanglement fresh_edge, interactions = 3,
               lastInteraction = Some (sequenceCounter world_ab + 3)\<rparr>"
proof -
  have h1: "''A'' \<noteq> ''B''" by simp
  have h2: "DAList.lookup (inhabitants world_ab) ''A'' = Some ann" by code_simp
  have h3: "DAList.lookup (inhabitants world_ab) ''B'' = Some bob" by code_simp
  have h4: "edge world_ab ''A'' ''B'' = Some fresh_edge" by code_simp
  have h5: "interactions fresh_edge = 0" by (simp add: fresh_edge_def)
  have h6: "model fresh_edge = Default" by (simp add: fresh_edge_def)
  from h1 h2 h3 h4 h5 h6
    three_broadcasts_promote [OF h1 h2 h3 h4 h5 h6,
      of 0 ascii_lower "str ''one''" None "str ''two''" None "str ''three''" None]
  show ?thesis by blast
qed

subsection \<open>Recipients\<close>

lemma unknown_recipient_graph:
  assumes "msg_to a \<noteq> ''world''" "relationships w (msg_to a) = None"
    "edge w (msg_from a) (msg_to a) = None"
  shows "relationships (snd (message_record lc sender a w)) = relationships w"
proof -
  have "lookup_edge (relationships w) (msg_to a) (msg_from a) = None"
    using assms(2) by (simp add: lookup_edge_def)
  then show ?thesis
    using assms(1,3) by (simp add: relationships_message_record edge_def direct_step_absent)
qed

text \<open>Handlers are run one after the other, each in the state the one before left.\<close>

lemma emit_from:
  "emit n lc L hs1 d w = (Returned (), w') \<Longrightarrow>
   emit n lc L (hs1 @ hs2) d w = emit n lc L hs2 d w'"
proof (induction hs1 arbitrary: w)
  case Nil
  then show ?case by simp
next
  case (Cons h hs1)
  obtain r w0 where rh: "run_handler n lc L (h d w) w = (r, w0)"
    by (cases "run_handler n lc L (h d w) w")
  show ?case
  proof (cases r)
    case (Returned u)
    with Cons.prems rh have "emit n lc L hs1 d w0 = (Returned (), w')" by simp
    then have "emit n lc L (hs1 @ hs2) d w0 = emit n lc L hs2 d w'" by (rule Cons.IH)
    with rh Returned show ?thesis by simp
  next
    case Aborted
    with Cons.prems rh show ?thesis by simp
  qed
qed

lemma returning_case:
  "returning r (case res of (Aborted, w') \<Rightarrow> (Aborted, w') | (Returned u, w') \<Rightarrow> f w')
     = (case res of (Aborted, w') \<Rightarrow> (Aborted, w') | (Returned u, w') \<Rightarrow> returning r (f w'))"
  by (cases res) (simp add: returning_def split: outcome.splits)

lemma fst_returning_aborted: "(fst (returning r res) = Aborted) = (fst res = Aborted)"
  by (cases res) (simp add: returning_def split: outcome.splits)

text \<open>
  A call that is not aborted under a budget goes the same way under a larger budget: by
  induction along the calls.
\<close>

lemma budget_step:
  "fst (enter n lc L inh w) \<noteq> Aborted \<longrightarrow> enter (Suc n) lc L inh w = enter n lc L inh w"
  "fst (leave n lc L i w) \<noteq> Aborted \<longrightarrow> leave (Suc n) lc L i w = leave n lc L i w"
  "fst (processMessage n lc L a w) \<noteq> Aborted
     \<longrightarrow> processMessage (Suc n) lc L a w = processMessage n lc L a w"
  "fst (emit n lc L hs d w) \<noteq> Aborted \<longrightarrow> emit (Suc n) lc L hs d w = emit n lc L hs d w"
  "fst (run_handler n lc L p w) \<noteq> Aborted
     \<longrightarrow> run_handler (Suc n) lc L p w = run_handler n lc L p w"
  "fst (call n lc L c w) \<noteq> Aborted \<longrightarrow> call (Suc n) lc L c w = call n lc L c w"
proof (induction n lc L inh w and n lc L i w and n lc L a w and n lc L hs d w and n lc L p w
    and n lc L c w
    rule: enter_leave_processMessage_emit_run_handler_call.induct)
  case (1 n lc L inh w)
  obtain ev w1 where er: "enter_record inh w = (ev, w1)"
    by (cases "enter_record inh w")
  show ?case
  proof
    assume "fst (enter n lc L inh w) \<noteq> Aborted"
    then have "fst (emit n lc L (L ''inhabitant:enter'') (EnterData inh ev) w1) \<noteq> Aborted"
      by (simp add: er fst_returning_aborted)
    with "1" [OF refl er [symmetric]]
    have "emit (Suc n) lc L (L ''inhabitant:enter'') (EnterData inh ev) w1
            = emit n lc L (L ''inhabitant:enter'') (EnterData inh ev) w1"
      by simp
    then show "enter (Suc n) lc L inh w = enter n lc L inh w"
      by (simp add: er)
  qed
next
  case (2 n lc L inhabitantId w)
  show ?case
  proof (cases "DAList.lookup (inhabitants w) inhabitantId")
    case None
    then show ?thesis by simp
  next
    case (Some inh)
    obtain ev w1 where lr: "leave_record inhabitantId inh w = (ev, w1)"
      by (cases "leave_record inhabitantId inh w")
    show ?thesis
    proof
      assume "fst (leave n lc L inhabitantId w) \<noteq> Aborted"
      then have "fst (emit n lc L (L ''inhabitant:leave'') (LeaveData inhabitantId ev) w1)
                   \<noteq> Aborted"
        by (simp add: Some lr fst_returning_aborted)
      with "2" [OF Some refl lr [symmetric]]
      have "emit (Suc n) lc L (L ''inhabitant:leave'') (LeaveData inhabitantId ev) w1
              = emit n lc L (L ''inhabitant:leave'') (LeaveData inhabitantId ev) w1"
        by simp
      then show "leave (Suc n) lc L inhabitantId w = leave n lc L inhabitantId w"
        by (simp add: Some lr)
    qed
  qed
next
  case (3 n lc L a w)
  show ?case
  proof (cases "DAList.lookup (inhabitants w) (msg_from a)")
    case None
    then show ?thesis by simp
  next
    case (Some sender)
    obtain message w1 where mr: "message_record lc sender a w = (message, w1)"
      by (cases "message_record lc sender a w")
    show ?thesis
    proof
      assume "fst (processMessage n lc L a w) \<noteq> Aborted"
      then have "fst (emit n lc L (L ''message'') (MessageData message) w1) \<noteq> Aborted"
        by (simp add: Some mr fst_returning_aborted)
      with "3" [OF Some refl mr [symmetric]]
      have "emit (Suc n) lc L (L ''message'') (MessageData message) w1
              = emit n lc L (L ''message'') (MessageData message) w1"
        by simp
      then show "processMessage (Suc n) lc L a w = processMessage n lc L a w"
        by (simp add: Some mr)
    qed
  qed
next
  case (4 n lc L d w)
  then show ?case by simp
next
  case (5 n lc L h hs d w)
  obtain r w' where rh: "run_handler n lc L (h d w) w = (r, w')"
    by (cases "run_handler n lc L (h d w) w")
  show ?case
  proof
    assume a: "fst (emit n lc L (h # hs) d w) \<noteq> Aborted"
    then obtain u where r: "r = Returned u"
      using rh by (cases r) simp_all
    from a rh r have t: "fst (emit n lc L hs d w') \<noteq> Aborted"
      by simp
    from "5.IH"(1) rh r have s1: "run_handler (Suc n) lc L (h d w) w = (Returned u, w')"
      by simp
    from "5.IH"(2) [OF rh [symmetric] r] t
    have s2: "emit (Suc n) lc L hs d w' = emit n lc L hs d w'"
      by simp
    show "emit (Suc n) lc L (h # hs) d w = emit n lc L (h # hs) d w"
      by (simp add: rh r s1 s2)
  qed
next
  case (6 n lc L w)
  then show ?case by simp
next
  case (7 n lc L w)
  then show ?case by simp
next
  case (8 lc L c k w)
  then show ?case by simp
next
  case (9 n lc L c k w)
  obtain r w' where cr: "call n lc L c w = (r, w')"
    by (cases "call n lc L c w")
  show ?case
  proof
    assume a: "fst (run_handler (Suc n) lc L (Call c k) w) \<noteq> Aborted"
    then obtain v where r: "r = Returned v"
      using cr by (cases r) simp_all
    from a cr r have t: "fst (run_handler n lc L (k v w') w') \<noteq> Aborted"
      by simp
    from "9.IH"(1) cr r have s1: "call (Suc n) lc L c w = (Returned v, w')"
      by simp
    from "9.IH"(2) [OF cr [symmetric] r] t
    have s2: "run_handler (Suc n) lc L (k v w') w' = run_handler n lc L (k v w') w'"
      by simp
    have "run_handler (Suc (Suc n)) lc L (Call c k) w = run_handler (Suc n) lc L (k v w') w'"
      by (simp add: s1)
    also have "\<dots> = run_handler n lc L (k v w') w'"
      by (rule s2)
    also have "\<dots> = run_handler (Suc n) lc L (Call c k) w"
      by (simp add: cr r)
    finally show "run_handler (Suc (Suc n)) lc L (Call c k) w
                    = run_handler (Suc n) lc L (Call c k) w" .
  qed
next
  case (10 n lc L inh w)
  then show ?case by simp
next
  case (11 n lc L i w)
  then show ?case by simp
next
  case (12 n lc L a w)
  then show ?case by simp
qed

lemma budget_more:
  "fst (processMessage n lc L a w) \<noteq> Aborted
   \<Longrightarrow> processMessage (n + k) lc L a w = processMessage n lc L a w"
proof (induction k)
  case 0
  then show ?case by simp
next
  case (Suc k)
  then have eq: "processMessage (n + k) lc L a w = processMessage n lc L a w"
    by simp
  with Suc.prems have "fst (processMessage (n + k) lc L a w) \<noteq> Aborted"
    by simp
  with budget_step(3) [of "n + k" lc L a w]
  have "processMessage (Suc (n + k)) lc L a w = processMessage (n + k) lc L a w"
    by blast
  with eq show ?case
    by (simp del: processMessage.simps)
qed

text \<open>
  C10. Whatever \<open>to\<close> is (the broadcast target, an active, a departed or an unknown id), a
  call of \<open>processMessage\<close> whose sender is active
  \<^item> records the message with that \<open>to\<close> under the next sequence number, classified;
  \<^item> never returns null;
  \<^item> hands the recorded, classified message to every handler registered for \<open>message\<close>,
    in registration order: once the handlers before it have completed, the handler is run
    on that message in the state they left, and the call goes on with the handlers after
    it unless this one aborts;
  \<^item> returns the recorded message when the handlers complete, and does so under every
    larger call budget as well; with no handler for \<open>message\<close> it returns it under any
    budget.
  When \<open>to\<close> is not the broadcast target and has no entry in the relationship graph (it
  never entered) nor an edge from the sender, the relationship graph at the emission is
  the one before the call.
\<close>

theorem processMessage_any_recipient:
  assumes act: "DAList.lookup (inhabitants w) (msg_from a) = Some sender"
  shows "let message = \<lparr>sequence = Suc (sequenceCounter w),
                        payload = MessageEvent (msg_from a) (iname sender) (msg_to a)
                                    (msg_content a) (msg_replyTo a) (Some Perturbation)\<rparr>;
             w1 = snd (message_record lc sender a w)
         in memory w1 = memory w @ [message]
            \<and> sequenceCounter w1 = Suc (sequenceCounter w)
            \<and> fst (processMessage n lc L a w) \<noteq> Returned None
            \<and> (\<forall>hs1 h hs2 w'.
                  L ''message'' = hs1 @ h # hs2
                  \<and> emit n lc L hs1 (MessageData message) w1 = (Returned (), w')
                \<longrightarrow> processMessage n lc L a w
                    = (case run_handler n lc L (h (MessageData message) w') w' of
                         (Aborted, w'') \<Rightarrow> (Aborted, w'')
                       | (Returned u, w'') \<Rightarrow>
                           returning (Some message)
                             (emit n lc L hs2 (MessageData message) w'')))
            \<and> (\<forall>w2 k.
                  emit n lc L (L ''message'') (MessageData message) w1 = (Returned (), w2)
                \<longrightarrow> processMessage (n + k) lc L a w = (Returned (Some message), w2))
            \<and> (L ''message'' = []
                \<longrightarrow> processMessage n lc L a w = (Returned (Some message), w1))
            \<and> (msg_to a \<noteq> ''world'' \<and> relationships w (msg_to a) = None
                  \<and> edge w (msg_from a) (msg_to a) = None
                \<longrightarrow> relationships w1 = relationships w)"
proof -
  let ?message = "\<lparr>sequence = Suc (sequenceCounter w),
                        payload = MessageEvent (msg_from a) (iname sender) (msg_to a)
                                    (msg_content a) (msg_replyTo a) (Some Perturbation)\<rparr>"
  let ?w1 = "snd (message_record lc sender a w)"
  have ev: "fst (message_record lc sender a w) = ?message"
    by (rule message_record_event)
  have pm: "\<And>m. processMessage m lc L a w
     = returning (Some ?message) (emit m lc L (L ''message'') (MessageData ?message) ?w1)"
    using processMessage_active [OF act, of _ lc L] unfolding ev .
  have c1: "memory ?w1 = memory w @ [?message]"
    using memory_message_record [of lc sender a w] unfolding ev .
  have c2: "sequenceCounter ?w1 = Suc (sequenceCounter w)"
    by (rule counter_message_record)
  have c3: "fst (processMessage n lc L a w) \<noteq> Returned None"
    unfolding pm by (rule fst_returning_not_null)
  have c4: "processMessage n lc L a w
              = (case run_handler n lc L (h (MessageData ?message) w') w' of
                   (Aborted, w'') \<Rightarrow> (Aborted, w'')
                 | (Returned u, w'') \<Rightarrow>
                     returning (Some ?message) (emit n lc L hs2 (MessageData ?message) w''))"
    if "L ''message'' = hs1 @ h # hs2"
      and "emit n lc L hs1 (MessageData ?message) ?w1 = (Returned (), w')"
    for hs1 h hs2 w'
  proof -
    have "emit n lc L (L ''message'') (MessageData ?message) ?w1
            = emit n lc L (h # hs2) (MessageData ?message) w'"
      unfolding that(1) by (rule emit_from [OF that(2)])
    then show ?thesis
      unfolding pm by (simp add: returning_case)
  qed
  have c5: "processMessage (n + k) lc L a w = (Returned (Some ?message), w2)"
    if "emit n lc L (L ''message'') (MessageData ?message) ?w1 = (Returned (), w2)"
    for w2 k
  proof -
    have r: "processMessage n lc L a w = (Returned (Some ?message), w2)"
      unfolding pm that by (simp add: returning_def)
    then have "fst (processMessage n lc L a w) \<noteq> Aborted"
      by (simp del: processMessage.simps)
    then have "processMessage (n + k) lc L a w = processMessage n lc L a w"
      by (rule budget_more)
    with r show ?thesis
      by (simp del: processMessage.simps)
  qed
  have c6: "processMessage n lc L a w = (Returned (Some ?message), ?w1)"
    if "L ''message'' = []"
    unfolding pm that by (simp add: returning_def)
  have c7: "relationships ?w1 = relationships w"
    if "msg_to a \<noteq> ''world'' \<and> relationships w (msg_to a) = None
          \<and> edge w (msg_from a) (msg_to a) = None"
    using that unknown_recipient_graph [of a w lc sender] by blast
  show ?thesis
    unfolding Let_def using c1 c2 c3 c4 c5 c6 c7 by blast
qed

theorem processMessage_any_recipient_witness:
  "DAList.lookup (inhabitants world_ab) (msg_from (say ''A'' ''nobody'' ''hello'')) = Some ann
   \<and> msg_to (say ''A'' ''nobody'' ''hello'') \<noteq> ''world''
   \<and> relationships world_ab (msg_to (say ''A'' ''nobody'' ''hello'')) = None
   \<and> edge world_ab (msg_from (say ''A'' ''nobody'' ''hello''))
        (msg_to (say ''A'' ''nobody'' ''hello'')) = None
   \<and> relay_listeners ''message'' = [] @ relay # []
   \<and> fst (emit 1 ascii_lower relay_listeners (relay_listeners ''message'')
             (MessageData \<lparr>sequence = 3,
                payload = MessageEvent ''A'' ''Ann'' ''nobody'' (str ''hello'') None
                            (Some Perturbation)\<rparr>)
             (snd (message_record ascii_lower ann (say ''A'' ''nobody'' ''hello'') world_ab)))
       = Returned ()
   \<and> fst (processMessage (1 + 4) ascii_lower relay_listeners (say ''A'' ''nobody'' ''hello'')
             world_ab)
       = Returned (Some \<lparr>sequence = 3,
           payload = MessageEvent ''A'' ''Ann'' ''nobody'' (str ''hello'') None
                       (Some Perturbation)\<rparr>)
   \<and> processMessage 1 ascii_lower relay_listeners (say ''A'' ''nobody'' ''hello'') world_ab
       = (case run_handler 1 ascii_lower relay_listeners
                 (relay (MessageData \<lparr>sequence = 3,
                    payload = MessageEvent ''A'' ''Ann'' ''nobody'' (str ''hello'') None
                                (Some Perturbation)\<rparr>)
                    (snd (message_record ascii_lower ann (say ''A'' ''nobody'' ''hello'')
                            world_ab)))
                 (snd (message_record ascii_lower ann (say ''A'' ''nobody'' ''hello'')
                         world_ab)) of
            (Aborted, w'') \<Rightarrow> (Aborted, w'')
          | (Returned u, w'') \<Rightarrow>
              returning (Some \<lparr>sequence = 3,
                  payload = MessageEvent ''A'' ''Ann'' ''nobody'' (str ''hello'') None
                              (Some Perturbation)\<rparr>)
                (emit 1 ascii_lower relay_listeners []
                   (MessageData \<lparr>sequence = 3,
                      payload = MessageEvent ''A'' ''Ann'' ''nobody'' (str ''hello'') None
                                  (Some Perturbation)\<rparr>) w''))
   \<and> memory (snd (processMessage 1 ascii_lower relay_listeners
                     (say ''A'' ''nobody'' ''hello'') world_ab))
       = [\<lparr>sequence = 1, payload = EnterEvent ''A'' ''Ann'' ''human''\<rparr>,
          \<lparr>sequence = 2, payload = EnterEvent ''B'' ''Bob'' ''agent''\<rparr>,
          \<lparr>sequence = 3,
            payload = MessageEvent ''A'' ''Ann'' ''nobody'' (str ''hello'') None
                        (Some Perturbation)\<rparr>,
          \<lparr>sequence = 4,
            payload = MessageEvent ''B'' ''Bob'' ''nobody'' (str ''hello'') None
                        (Some Perturbation)\<rparr>]
   \<and> relationships (snd (message_record ascii_lower ann (say ''A'' ''nobody'' ''hello'')
                            world_ab))
       = relationships world_ab"
proof -
  let ?a = "say ''A'' ''nobody'' ''hello''"
  let ?m = "\<lparr>sequence = 3,
              payload = MessageEvent ''A'' ''Ann'' ''nobody'' (str ''hello'') None
                          (Some Perturbation)\<rparr>"
  let ?w1 = "snd (message_record ascii_lower ann ?a world_ab)"
  have h1: "DAList.lookup (inhabitants world_ab) (msg_from ?a) = Some ann" by code_simp
  have h2: "msg_to ?a \<noteq> ''world''" by (simp add: say_def)
  have h3: "relationships world_ab (msg_to ?a) = None" by code_simp
  have h4: "edge world_ab (msg_from ?a) (msg_to ?a) = None" by code_simp
  have h5: "relay_listeners ''message'' = [] @ relay # []"
    by (simp add: relay_listeners_def)
  have h6: "fst (emit 1 ascii_lower relay_listeners (relay_listeners ''message'')
                   (MessageData ?m) ?w1) = Returned ()"
    by code_simp
  have mem: "memory (snd (processMessage 1 ascii_lower relay_listeners ?a world_ab))
       = [\<lparr>sequence = 1, payload = EnterEvent ''A'' ''Ann'' ''human''\<rparr>,
          \<lparr>sequence = 2, payload = EnterEvent ''B'' ''Bob'' ''agent''\<rparr>,
          ?m,
          \<lparr>sequence = 4,
            payload = MessageEvent ''B'' ''Bob'' ''nobody'' (str ''hello'') None
                        (Some Perturbation)\<rparr>]"
    by code_simp
  have c: "sequenceCounter world_ab = 2" by code_simp
  have f: "msg_from ?a = ''A''" "msg_to ?a = ''nobody''" "msg_content ?a = str ''hello''"
    "msg_replyTo ?a = None" "iname ann = ''Ann''"
    by (simp_all add: say_def ann_def)
  have s3: "Suc 2 = (3::nat)" by simp
  note T = processMessage_any_recipient
    [OF h1, where n = 1 and lc = ascii_lower and L = relay_listeners,
      unfolded Let_def c f s3]
  have e0: "emit 1 ascii_lower relay_listeners [] (MessageData ?m) ?w1 = (Returned (), ?w1)"
    by simp
  have e1: "emit 1 ascii_lower relay_listeners (relay_listeners ''message'') (MessageData ?m) ?w1
      = (Returned (), snd (emit 1 ascii_lower relay_listeners (relay_listeners ''message'')
                            (MessageData ?m) ?w1))"
    using h6 by (metis prod.collapse)
  from T have d4: "processMessage 1 ascii_lower relay_listeners ?a world_ab
       = (case run_handler 1 ascii_lower relay_listeners (relay (MessageData ?m) ?w1) ?w1 of
            (Aborted, w'') \<Rightarrow> (Aborted, w'')
          | (Returned u, w'') \<Rightarrow>
              returning (Some ?m) (emit 1 ascii_lower relay_listeners [] (MessageData ?m) w''))"
    using h5 e0 by blast
  from T e1 have "processMessage (1 + 4) ascii_lower relay_listeners ?a world_ab
       = (Returned (Some ?m), snd (emit 1 ascii_lower relay_listeners
                                    (relay_listeners ''message'') (MessageData ?m) ?w1))"
    by blast
  then have d5: "fst (processMessage (1 + 4) ascii_lower relay_listeners ?a world_ab)
       = Returned (Some ?m)"
    by (simp del: processMessage.simps)
  from T h2 [unfolded f] h3 [unfolded f] h4 [unfolded f]
  have d7: "relationships ?w1 = relationships world_ab"
    by blast
  from h1 h2 h3 h4 h5 h6 d5 d4 mem d7 show ?thesis
    by blast
qed

section \<open>Properties of the agent engine\<close>

subsection \<open>The decision to respond\<close>

text \<open>
  C9. A message whose \<open>to\<close> is the agent's id makes \<open>shouldRespond\<close> return true, for
  every evaluation, world state, random draw, engagement and silence count.
\<close>

theorem shouldRespond_direct:
  "m_to m = aid a \<Longrightarrow> shouldRespond m evaluation worldState Math a"
  by (simp add: shouldRespond_def)

theorem shouldRespond_direct_witness:
  "m_to (heard 3 ''A'' ''V'' ''hello'') = aid vera
   \<and> shouldRespond (heard 3 ''A'' ''V'' ''hello'') (- 1) \<lparr>inhabitantCount = 40\<rparr> some_math vera"
proof -
  have h: "m_to (heard 3 ''A'' ''V'' ''hello'') = aid vera"
    by (simp add: heard_def vera_def)
  show ?thesis
    using h shouldRespond_direct [OF h, of "- 1" "\<lparr>inhabitantCount = 40\<rparr>" some_math] by simp
qed

text \<open>
  C5, as stated, fails: the test for direct address comes first, so a message that the
  agent sent to itself (\<open>from\<close> and \<open>to\<close> both its own id) is answered.
\<close>

theorem shouldRespond_own_counterexample:
  "m_from (heard 3 ''V'' ''V'' ''hello'') = aid vera
   \<and> shouldRespond (heard 3 ''V'' ''V'' ''hello'') 0 \<lparr>inhabitantCount = 2\<rparr> some_math vera"
  by (simp add: shouldRespond_def heard_def vera_def)

text \<open>
  C5, amended. A message whose \<open>from\<close> is the agent's own id and whose \<open>to\<close> is not the
  agent's id makes \<open>shouldRespond\<close> return false, for every evaluation, world state,
  random draw, engagement and silence count.
\<close>

theorem shouldRespond_own:
  "m_from m = aid a \<Longrightarrow> m_to m \<noteq> aid a
   \<Longrightarrow> \<not> shouldRespond m evaluation worldState Math a"
  by (simp add: shouldRespond_def)

theorem shouldRespond_own_witness:
  "m_from (heard 3 ''V'' ''world'' ''hello'') = aid vera
   \<and> m_to (heard 3 ''V'' ''world'' ''hello'') \<noteq> aid vera
   \<and> \<not> shouldRespond (heard 3 ''V'' ''world'' ''hello'') 1 \<lparr>inhabitantCount = 1\<rparr> some_math vera"
proof -
  have h1: "m_from (heard 3 ''V'' ''world'' ''hello'') = aid vera"
    by (simp add: heard_def vera_def)
  have h2: "m_to (heard 3 ''V'' ''world'' ''hello'') \<noteq> aid vera"
    by (simp add: heard_def vera_def)
  show ?thesis
    using h1 h2 shouldRespond_own [OF h1 h2, of 1 "\<lparr>inhabitantCount = 1\<rparr>" some_math] by simp
qed

subsection \<open>Evaluation\<close>

lemma evaluate_bounds: "- 1 \<le> fst (evaluate lc m a) \<and> fst (evaluate lc m a) \<le> 1"
  by (simp add: evaluate_def Let_def)

text \<open>In doubles, 0 + 0.6 + 0.3 + 0.15 + 0.15 is 1.1999999999999997, above 1.\<close>

lemma full_weight_sum:
  "js_add (js_add (js_add (js_add 0 (lit (6 / 10))) (lit (3 / 10))) (lit (15 / 100)))
     (lit (15 / 100)) = 2702159776422297 / 2251799813685248"
  by code_simp

lemma full_weight_clamped:
  "min 1 (max (- 1)
     (js_add (js_add (js_add (js_add 0 (lit (6 / 10))) (lit (3 / 10))) (lit (15 / 100)))
        (lit (15 / 100)))) = 1"
  by code_simp

lemma evaluate_full:
  assumes "m_to m = aid a" "includes_str (toLowerCase (m_content m)) (str ''?'')"
    "\<exists>i \<in> set (interests a). includes_str (toLowerCase (m_content m)) (toLowerCase i)"
    "models a (m_from m) = Some mo" "trust mo > lit (5 / 10)"
  shows "fst (evaluate toLowerCase m a) = 1"
proof -
  have i: "list_ex (\<lambda>interest. includes_str (toLowerCase (m_content m)) (toLowerCase interest))
             (interests a)"
    using assms(3) by (simp add: list_ex_iff)
  show ?thesis
    using assms(1,2,4,5) i full_weight_clamped by (simp add: evaluate_def Let_def)
qed

text \<open>
  C8. The weight \<open>evaluate\<close> returns lies in [-1, 1], for every agent and message; and it
  is exactly 1 for a message addressed to the agent, whose content contains a question
  mark and one of the agent's interest keywords as \<open>evaluate\<close> tests it (the lower-cased
  content includes the question mark, and includes the lower-cased keyword), from a
  sender the agent models with trust above 0.5. This holds whatever function
  \<open>toLowerCase\<close> is.
\<close>

theorem evaluate_range_and_full_weight:
  "(- 1 \<le> fst (evaluate toLowerCase m a) \<and> fst (evaluate toLowerCase m a) \<le> 1)
   \<and> (m_to m = aid a \<and> includes_str (toLowerCase (m_content m)) (str ''?'')
        \<and> (\<exists>i \<in> set (interests a).
              includes_str (toLowerCase (m_content m)) (toLowerCase i))
        \<and> (\<exists>mo. models a (m_from m) = Some mo \<and> trust mo > lit (5 / 10))
      \<longrightarrow> fst (evaluate toLowerCase m a) = 1)"
  using evaluate_bounds [of toLowerCase m a] evaluate_full [of m a toLowerCase] by blast

theorem evaluate_range_and_full_weight_witness:
  "m_to (heard 7 ''A'' ''V'' ''Is TRUTH knowable?'') = aid vera
   \<and> includes_str (ascii_lower (m_content (heard 7 ''A'' ''V'' ''Is TRUTH knowable?'')))
        (str ''?'')
   \<and> (\<exists>i \<in> set (interests vera).
         includes_str (ascii_lower (m_content (heard 7 ''A'' ''V'' ''Is TRUTH knowable?'')))
           (ascii_lower i))
   \<and> (\<exists>mo. models vera (m_from (heard 7 ''A'' ''V'' ''Is TRUTH knowable?'')) = Some mo
         \<and> trust mo > lit (5 / 10))
   \<and> - 1 \<le> fst (evaluate ascii_lower (heard 7 ''A'' ''V'' ''Is TRUTH knowable?'') vera)
   \<and> fst (evaluate ascii_lower (heard 7 ''A'' ''V'' ''Is TRUTH knowable?'') vera) = 1"
proof -
  let ?m = "heard 7 ''A'' ''V'' ''Is TRUTH knowable?''"
  have h1: "m_to ?m = aid vera"
    by (simp add: heard_def vera_def)
  have h2: "includes_str (ascii_lower (m_content ?m)) (str ''?'')"
    by code_simp
  have "includes_str (ascii_lower (m_content ?m)) (ascii_lower (str ''truth''))"
    by code_simp
  then have h3: "\<exists>i \<in> set (interests vera).
      includes_str (ascii_lower (m_content ?m)) (ascii_lower i)"
    by (simp add: vera_def)
  have t: "lit (6 / 10) > lit (5 / 10)"
    by code_simp
  have "models vera (m_from ?m) = Some \<lparr>mo_name = ''Ann'', mo_style = ''terse'',
          trust = lit (6 / 10), mo_messageCount = 5\<rparr>"
    by (simp add: heard_def vera_def)
  then have h4: "\<exists>mo. models vera (m_from ?m) = Some mo \<and> trust mo > lit (5 / 10)"
    using t by simp
  show ?thesis
    using h1 h2 h3 h4 evaluate_range_and_full_weight [of ascii_lower ?m vera] by blast
qed

subsection \<open>Compaction of the experience log\<close>

text \<open>
  C2, as stated, fails: when the 101st salient entry arrives, the log keeps the entries
  1 to 10 and 22 to 101, not 1 to 10 and 92 to 101.
\<close>

theorem compaction_counterexample:
  "length (experienceLog vera_100) = 100
   \<and> map x_sequence (experienceLog
        (integrateExperience ascii_lower (heard 101 ''A'' ''world'' ''hello'') (1 / 2) vera_100))
       = [1..<11] @ [22..<102]
   \<and> map x_sequence (experienceLog
        (integrateExperience ascii_lower (heard 101 ''A'' ''world'' ''hello'') (1 / 2) vera_100))
       \<noteq> [1..<11] @ [92..<102]"
  by code_simp

text \<open>
  C2, amended. When the log holds 100 entries and an entry with evaluation above 0.3
  arrives as the 101st, \<open>integrateExperience\<close> leaves exactly the entries 1 to 10 and
  22 to 101 (the 80 most recent), in order, and discards the entries 11 to 21.
\<close>

theorem compaction_keeps_first_10_last_80:
  "length (experienceLog a) = 100 \<Longrightarrow> evaluation > lit (3 / 10)
   \<Longrightarrow> experienceLog (integrateExperience lc m evaluation a)
       = take 10 (experienceLog a) @ drop 21 (experienceLog a @ [experience_of m evaluation])"
  by (simp add: integrateExperience_def Let_def slice_last_def split: option.splits)

theorem compaction_keeps_first_10_last_80_witness:
  "length (experienceLog vera_100) = 100 \<and> (1 / 2 :: rat) > lit (3 / 10)
   \<and> experienceLog (integrateExperience ascii_lower (heard 101 ''A'' ''world'' ''hello'') (1 / 2) vera_100)
       = take 10 (experienceLog vera_100)
         @ drop 21 (experienceLog vera_100
                     @ [experience_of (heard 101 ''A'' ''world'' ''hello'') (1 / 2)])"
proof -
  have h1: "length (experienceLog vera_100) = 100"
    by code_simp
  have h2: "(1 / 2 :: rat) > lit (3 / 10)"
    by code_simp
  show ?thesis
    using h1 h2 compaction_keeps_first_10_last_80
      [OF h1 h2, of ascii_lower "heard 101 ''A'' ''world'' ''hello''"]
    by simp
qed

end
